theory Spec2Isabelle
  imports Complex_Main
begin

section \<open>Common: JavaScript errors\<close>

text \<open>
  A thrown JavaScript exception is a value of type \<open>error\<close>: \<open>Error msg\<close> is
  \<^verbatim>\<open>throw new Error(msg)\<close>, \<open>TypeError\<close> is the exception the engine raises when a
  property of \<^verbatim>\<open>undefined\<close> or \<^verbatim>\<open>null\<close> is read or written. A function that can throw
  returns \<open>error + 'a\<close>, with \<open>Inl\<close> for the exception.
\<close>

datatype error = Error string | TypeError

section \<open>First Interactive: lighthouse-core/gather/computed/first-interactive.js\<close>

abbreviation TRACE_BUSY_MSG :: string where "TRACE_BUSY_MSG \<equiv> ''trace was busy the entire time''"

text \<open>A task \<^verbatim>\<open>{start, end}\<close>; a cluster \<^verbatim>\<open>{start, end, duration, tasks}\<close> extends it.\<close>

record task =
  start :: real
  "end" :: real


definition getRequiredWindowSizeInMs :: "real \<Rightarrow> real" where
  "getRequiredWindowSizeInMs t =
     (let tInSeconds = t / 1000;
          exponentiationComponent = exp (- (45 / 1000) * tInSeconds)
      in (4 * exponentiationComponent + 1) * 1000)"




text \<open>\<^verbatim>\<open>Array.prototype.map\<close> with a callback that may throw: the first exception ends it.\<close>

fun mapE :: "('a \<Rightarrow> error + 'b) \<Rightarrow> 'a list \<Rightarrow> error + 'b list" where
  "mapE f [] = Inr []"
| "mapE f (x # xs) =
     (case f x of
        Inl e \<Rightarrow> Inl e
      | Inr y \<Rightarrow> (case mapE f xs of Inl e \<Rightarrow> Inl e | Inr ys \<Rightarrow> Inr (y # ys)))"












subsection \<open>Notions of the specification, for stating the claims about the search\<close>








section \<open>The report generator: class ReportGeneratorV2 (src/unnamed/part_000)\<close>

subsection \<open>JavaScript numbers and values\<close>

text \<open>
  A JavaScript number is an IEEE 754 double: a finite value, \<^verbatim>\<open>Infinity\<close>, \<^verbatim>\<open>-Infinity\<close> or
  \<^verbatim>\<open>NaN\<close>. A finite double is the real number it denotes, and an arithmetic operation on
  finite doubles returns the exact result rounded to the nearest double, ties to the even
  significand (\<open>toDouble\<close>): \<open>ulpOf x\<close> is the spacing of the doubles around \<open>x\<close>, that is
  \<open>2 ^ (e - 52)\<close> when \<open>2 ^ e \<le> \<bar>x\<bar> < 2 ^ (e + 1)\<close> and \<open>2 ^ (- 1074)\<close> below \<open>2 ^ (- 1022)\<close>
  (the subnormal numbers), and a rounded result of magnitude \<open>2 ^ 1024\<close> or more overflows to
  the infinity of its sign. \<open>isDouble x\<close> says that the real number \<open>x\<close> is a double. On the
  non-finite values the operations follow IEEE 754.

  The sign of zero is left out, since no result of the code below depends on it:
  \<^verbatim>\<open>x || 0\<close> turns \<^verbatim>\<open>-0\<close> into \<^verbatim>\<open>+0\<close>, a sum that starts at \<^verbatim>\<open>+0\<close> is never \<^verbatim>\<open>-0\<close> (so
  the divisor of \<^verbatim>\<open>arithmeticMean\<close> is never \<^verbatim>\<open>-0\<close>), and \<^verbatim>\<open>Math.exp\<close> is 1 at both zeros.
\<close>

datatype jsnum = Finite real | PosInfinity | NegInfinity | NaN

definition infinityOfSign :: "bool \<Rightarrow> jsnum" where
  "infinityOfSign positive = (if positive then PosInfinity else NegInfinity)"

definition roundHalfEven :: "real \<Rightarrow> int" where
  "roundHalfEven q =
     (let n = \<lfloor>q\<rfloor> in
      if q - of_int n < 1 / 2 then n
      else if q - of_int n > 1 / 2 then n + 1
      else if even n then n else n + 1)"

definition ulpOf :: "real \<Rightarrow> real" where
  "ulpOf x = 2 powr (of_int (max \<lfloor>log 2 \<bar>x\<bar>\<rfloor> (- 1022)) - 52)"

definition toDouble :: "real \<Rightarrow> jsnum" where
  "toDouble x =
     (if x = 0 then Finite 0
      else (let r = of_int (roundHalfEven (x / ulpOf x)) * ulpOf x
            in if \<bar>r\<bar> \<ge> 2 ^ 1024 then infinityOfSign (0 < x) else Finite r))"

definition isDouble :: "real \<Rightarrow> bool" where
  "isDouble x \<longleftrightarrow> toDouble x = Finite x"

fun jsAdd :: "jsnum \<Rightarrow> jsnum \<Rightarrow> jsnum" where
  "jsAdd NaN y = NaN"
| "jsAdd x NaN = NaN"
| "jsAdd (Finite a) (Finite b) = toDouble (a + b)"
| "jsAdd PosInfinity NegInfinity = NaN"
| "jsAdd NegInfinity PosInfinity = NaN"
| "jsAdd PosInfinity y = PosInfinity"
| "jsAdd NegInfinity y = NegInfinity"
| "jsAdd (Finite a) y = y"

fun jsMul :: "jsnum \<Rightarrow> jsnum \<Rightarrow> jsnum" where
  "jsMul NaN y = NaN"
| "jsMul x NaN = NaN"
| "jsMul (Finite a) (Finite b) = toDouble (a * b)"
| "jsMul (Finite a) PosInfinity = (if a = 0 then NaN else infinityOfSign (a > 0))"
| "jsMul (Finite a) NegInfinity = (if a = 0 then NaN else infinityOfSign (a < 0))"
| "jsMul PosInfinity (Finite b) = (if b = 0 then NaN else infinityOfSign (b > 0))"
| "jsMul NegInfinity (Finite b) = (if b = 0 then NaN else infinityOfSign (b < 0))"
| "jsMul PosInfinity PosInfinity = PosInfinity"
| "jsMul PosInfinity NegInfinity = NegInfinity"
| "jsMul NegInfinity PosInfinity = NegInfinity"
| "jsMul NegInfinity NegInfinity = PosInfinity"

fun jsDiv :: "jsnum \<Rightarrow> jsnum \<Rightarrow> jsnum" where
  "jsDiv NaN y = NaN"
| "jsDiv x NaN = NaN"
| "jsDiv (Finite a) (Finite b) =
     (if b = 0 then (if a = 0 then NaN else infinityOfSign (a > 0)) else toDouble (a / b))"
| "jsDiv (Finite a) y = Finite 0"
| "jsDiv PosInfinity (Finite b) = infinityOfSign (b \<ge> 0)"
| "jsDiv NegInfinity (Finite b) = infinityOfSign (b < 0)"
| "jsDiv x y = NaN"

text \<open>
  The values a score or a weight can hold: \<^verbatim>\<open>undefined\<close> (also a missing property),
  \<^verbatim>\<open>null\<close>, a boolean or a number, as the JSDoc types of the file have them.
\<close>

datatype jsval = Undefined | Null | Boolean bool | Num jsnum

text \<open>\<^verbatim>\<open>Number(v)\<close>.\<close>

fun Number :: "jsval \<Rightarrow> jsnum" where
  "Number Undefined = NaN"
| "Number Null = Finite 0"
| "Number (Boolean b) = (if b then Finite 1 else Finite 0)"
| "Number (Num x) = x"

text \<open>\<^verbatim>\<open>x || 0\<close> on a number \<open>x\<close>: the falsy numbers are \<^verbatim>\<open>0\<close> and \<^verbatim>\<open>NaN\<close>.\<close>

fun orZero :: "jsnum \<Rightarrow> jsnum" where
  "orZero NaN = Finite 0"
| "orZero (Finite a) = (if a = 0 then Finite 0 else Finite a)"
| "orZero x = x"

subsection \<open>arithmeticMean\<close>

text \<open>
  \<^verbatim>\<open>arithmeticMean\<close> reads two properties of each item; an item is the pair
  \<open>(item.score, item.weight)\<close>. The accumulator of \<^verbatim>\<open>reduce\<close> is \<^verbatim>\<open>{weight, sum}\<close>.
\<close>

record meanResults =
  results_weight :: jsnum
  results_sum :: jsnum

text \<open>The callback of \<^verbatim>\<open>items.reduce\<close>.\<close>

definition arithmeticMeanReducer :: "meanResults \<Rightarrow> jsval \<times> jsval \<Rightarrow> meanResults" where
  "arithmeticMeanReducer result' item =
     (let score = orZero (Number (fst item));
          weight = orZero (Number (snd item))
      in \<lparr>results_weight = jsAdd (results_weight result') weight,
          results_sum = jsAdd (results_sum result') (jsMul score weight)\<rparr>)"

definition arithmeticMean :: "(jsval \<times> jsval) list \<Rightarrow> jsnum" where
  "arithmeticMean items =
     (let results =
        foldl arithmeticMeanReducer \<lparr>results_weight = Finite 0, results_sum = Finite 0\<rparr> items
      in orZero (jsDiv (results_sum results) (results_weight results)))"

subsection \<open>generateReportJson\<close>

text \<open>
  A raw audit result \<^verbatim>\<open>{score, ...}\<close> (its other properties are not read); an audit of the
  configuration \<^verbatim>\<open>{id, weight}\<close>; an audit of the report, the copy of the configuration's
  audit with \<^verbatim>\<open>result\<close> and \<^verbatim>\<open>score\<close> (here \<open>auditScore\<close>) added.
\<close>

record auditResult =
  score :: jsval

record auditRef =
  audit_id :: string
  audit_weight :: jsval

record reportAudit = auditRef +
  result :: auditResult
  auditScore :: jsnum

text \<open>
  A category \<^verbatim>\<open>{id, name, description, weight, audits}\<close>; \<open>category_id = None\<close> is a
  category without the property \<^verbatim>\<open>id\<close>. A category of the report is the copy with the
  scored audits and \<^verbatim>\<open>score\<close> (here \<open>categoryScore\<close>).
\<close>

record 'a category =
  category_id :: "string option"
  name :: string
  description :: string
  weight :: jsval
  audits :: "'a list"

record 'a reportCategory = "'a category" +
  categoryScore :: jsnum

record aggregationScore =
  score_name :: string
  score_description :: string
  overall :: jsnum
  subItems :: "auditResult list"

record aggregation =
  aggregation_name :: string
  aggregation_description :: string
  categorizable :: bool
  scored :: bool
  total :: jsnum
  aggregation_score :: "aggregationScore list"

record report =
  overallScore :: jsnum
  categories :: "reportAudit reportCategory list"
  aggregations :: "aggregation list"

text \<open>
  Category objects live in a heap, so that the write \<^verbatim>\<open>category.id = categoryId\<close> is seen
  through the caller's \<^verbatim>\<open>config\<close>: \<^verbatim>\<open>config.categories\<close> maps each category id to the
  reference of its object (\<^verbatim>\<open>Object.keys\<close> is \<open>map fst\<close>, a property read is \<open>map_of\<close>).
\<close>

type_synonym ref = nat
type_synonym heap = "ref \<Rightarrow> auditRef category"

record config =
  config_categories :: "(string \<times> ref) list"

definition getAggregations :: "reportAudit reportCategory list \<Rightarrow> aggregation list" where
  "getAggregations reportCategories =
     map (\<lambda>category.
            (let name = name category;
                 description = description category
             in \<lparr>aggregation_name = name, aggregation_description = description,
                 categorizable = False,
                 scored = (category_id category = Some ''pwa''),
                 total = jsDiv (categoryScore category) (Finite 100),
                 aggregation_score =
                   [\<lparr>score_name = name, score_description = description,
                     overall = jsDiv (categoryScore category) (Finite 100),
                     subItems = map (\<lambda>audit. result audit) (audits category)\<rparr>]\<rparr>))
         reportCategories"

text \<open>
  The callback of \<^verbatim>\<open>category.audits.map\<close>: \<^verbatim>\<open>result.score\<close> throws a TypeError when
  \<^verbatim>\<open>resultsByAuditId\<close> has no entry for the audit's id.
\<close>

definition scoreAudit :: "(string \<rightharpoonup> auditResult) \<Rightarrow> auditRef \<Rightarrow> error + reportAudit" where
  "scoreAudit resultsByAuditId audit =
     (case resultsByAuditId (audit_id audit) of
        None \<Rightarrow> Inl TypeError
      | Some result' \<Rightarrow>
          (let auditScore = orZero (Number (score result'));
               auditScore = (case score result' of
                               Boolean b \<Rightarrow> (if b then Finite 100 else Finite 0)
                             | _ \<Rightarrow> auditScore)
           in Inr \<lparr>audit_id = audit_id audit, audit_weight = audit_weight audit,
                   result = result', auditScore = auditScore\<rparr>))"

text \<open>
  The callback of \<^verbatim>\<open>Object.keys(config.categories).map\<close>, on the heap: it writes the id
  into the category object before it scores the audits.
\<close>

definition scoreCategory ::
  "(string \<times> ref) list \<Rightarrow> (string \<rightharpoonup> auditResult) \<Rightarrow> string \<Rightarrow> heap
     \<Rightarrow> (error + reportAudit reportCategory) \<times> heap" where
  "scoreCategory configCategories resultsByAuditId categoryId h =
     (case map_of configCategories categoryId of
        None \<Rightarrow> (Inl TypeError, h)
      | Some r \<Rightarrow>
          (let h = h(r := (h r)\<lparr>category_id := Some categoryId\<rparr>);
               category = h r
           in case mapE (scoreAudit resultsByAuditId) (audits category) of
                Inl e \<Rightarrow> (Inl e, h)
              | Inr audits' \<Rightarrow>
                  (let categoryScore =
                         arithmeticMean (map (\<lambda>a. (Num (auditScore a), audit_weight a)) audits')
                   in (Inr \<lparr>category_id = category_id category, name = name category,
                            description = description category, weight = weight category,
                            audits = audits', categoryScore = categoryScore\<rparr>, h))))"

text \<open>\<^verbatim>\<open>map\<close> with a callback that writes to the heap and may throw.\<close>

fun mapHeapE ::
  "('a \<Rightarrow> heap \<Rightarrow> (error + 'b) \<times> heap) \<Rightarrow> 'a list \<Rightarrow> heap \<Rightarrow> (error + 'b list) \<times> heap" where
  "mapHeapE f [] h = (Inr [], h)"
| "mapHeapE f (x # xs) h =
     (case f x h of
        (Inl e, h') \<Rightarrow> (Inl e, h')
      | (Inr y, h') \<Rightarrow>
          (case mapHeapE f xs h' of
             (Inl e, h'') \<Rightarrow> (Inl e, h'')
           | (Inr ys, h'') \<Rightarrow> (Inr (y # ys), h'')))"

definition generateReportJson ::
  "config \<Rightarrow> (string \<rightharpoonup> auditResult) \<Rightarrow> heap \<Rightarrow> (error + report) \<times> heap" where
  "generateReportJson config' resultsByAuditId h =
     (case mapHeapE (scoreCategory (config_categories config') resultsByAuditId)
             (map fst (config_categories config')) h of
        (Inl e, h') \<Rightarrow> (Inl e, h')
      | (Inr categories', h') \<Rightarrow>
          (let overallScore =
                 arithmeticMean (map (\<lambda>c. (Num (categoryScore c), weight c)) categories');
               aggregations = getAggregations categories'
           in (Inr \<lparr>overallScore = overallScore, categories = categories',
                    aggregations = aggregations\<rparr>, h')))"

subsection \<open>Notions for stating the claims about the report\<close>

text \<open>
  Every audit of every category of the configuration has an entry in \<^verbatim>\<open>resultsByAuditId\<close>;
  an audit of the report carries its raw result and the normalised score; a category of the
  report carries the weighted mean of its audits.
\<close>

definition auditsHaveResults ::
  "(string \<times> ref) list \<Rightarrow> (string \<rightharpoonup> auditResult) \<Rightarrow> heap \<Rightarrow> bool" where
  "auditsHaveResults cats resultsByAuditId h \<longleftrightarrow>
     (\<forall>(k, r)\<in>set cats. \<forall>a\<in>set (audits (h r)). resultsByAuditId (audit_id a) \<noteq> None)"

definition scoredAudit :: "(string \<rightharpoonup> auditResult) \<Rightarrow> reportAudit \<Rightarrow> bool" where
  "scoredAudit resultsByAuditId a \<longleftrightarrow>
     resultsByAuditId (audit_id a) = Some (result a)
     \<and> auditScore a =
         (case score (result a) of
            Boolean b \<Rightarrow> (if b then Finite 100 else Finite 0)
          | Undefined \<Rightarrow> Finite 0
          | Null \<Rightarrow> Finite 0
          | Num NaN \<Rightarrow> Finite 0
          | Num x \<Rightarrow> x)"

definition scoredCategory :: "(string \<rightharpoonup> auditResult) \<Rightarrow> reportAudit reportCategory \<Rightarrow> bool" where
  "scoredCategory resultsByAuditId c \<longleftrightarrow>
     categoryScore c \<noteq> NaN
     \<and> categoryScore c = arithmeticMean (map (\<lambda>a. (Num (auditScore a), audit_weight a)) (audits c))
     \<and> (\<forall>a\<in>set (audits c). scoredAudit resultsByAuditId a)"

text \<open>The write \<^verbatim>\<open>category.id = categoryId\<close> through the reference of the category object.\<close>

definition writeId :: "heap \<Rightarrow> string \<times> ref \<Rightarrow> heap" where
  "writeId h kr = h(snd kr := (h (snd kr))\<lparr>category_id := Some (fst kr)\<rparr>)"

subsection \<open>Notions for stating the claims about the weighted mean and the report\<close>

text \<open>
  The sum of a list of numbers as \<^verbatim>\<open>reduce\<close> computes it, from 0 and from left to right. A
  number that is not negative: a double that is 0 or more, \<^verbatim>\<open>Infinity\<close>, or \<^verbatim>\<open>NaN\<close>.
\<close>

definition jsSum :: "jsnum list \<Rightarrow> jsnum" where
  "jsSum xs = foldl jsAdd (Finite 0) xs"


text \<open>
  The normalisation of a raw score as the specification words it: 100 and 0 for the booleans,
  0 for \<^verbatim>\<open>null\<close>, for a missing score and for \<^verbatim>\<open>NaN\<close>, the score itself otherwise. The weight
  an item counts with in the mean: 0 when it is missing, \<^verbatim>\<open>null\<close>, \<^verbatim>\<open>false\<close> or \<^verbatim>\<open>NaN\<close>, 1
  when it is \<^verbatim>\<open>true\<close>, the weight itself otherwise.
\<close>

fun normalizedScore :: "jsval \<Rightarrow> jsnum" where
  "normalizedScore (Boolean b) = (if b then Finite 100 else Finite 0)"
| "normalizedScore Undefined = Finite 0"
| "normalizedScore Null = Finite 0"
| "normalizedScore (Num NaN) = Finite 0"
| "normalizedScore (Num x) = x"

fun countedWeight :: "jsval \<Rightarrow> jsnum" where
  "countedWeight (Boolean b) = (if b then Finite 1 else Finite 0)"
| "countedWeight Undefined = Finite 0"
| "countedWeight Null = Finite 0"
| "countedWeight (Num NaN) = Finite 0"
| "countedWeight (Num x) = x"

text \<open>
  The audit and the category of the report that the specification describes for an audit and
  a category of the configuration: the audit with its raw result and its normalised score,
  the category under the id \<open>k\<close> with its scored audits and their weighted mean.
\<close>

definition reportAuditOf :: "(string \<rightharpoonup> auditResult) \<Rightarrow> auditRef \<Rightarrow> reportAudit" where
  "reportAuditOf resultsByAuditId audit =
     \<lparr>audit_id = audit_id audit, audit_weight = audit_weight audit,
      result = the (resultsByAuditId (audit_id audit)),
      auditScore = normalizedScore (score (the (resultsByAuditId (audit_id audit))))\<rparr>"

definition reportCategoryOf ::
  "(string \<rightharpoonup> auditResult) \<Rightarrow> string \<Rightarrow> auditRef category \<Rightarrow> reportAudit reportCategory" where
  "reportCategoryOf resultsByAuditId k category =
     \<lparr>category_id = Some k, name = name category, description = description category,
      weight = weight category,
      audits = map (reportAuditOf resultsByAuditId) (audits category),
      categoryScore =
        arithmeticMean
          (map (\<lambda>a. (Num (normalizedScore (score (the (resultsByAuditId (audit_id a))))),
                      audit_weight a))
             (audits category))\<rparr>"

section \<open>The required window size in double precision\<close>

text \<open>
  \<^verbatim>\<open>getRequiredWindowSizeInMs\<close> once more, now with each operation of the source rounded to
  double precision. \<^verbatim>\<open>-.045\<close> is the double nearest to \<open>- 45 / 1000\<close>. \<^verbatim>\<open>Math.exp\<close> belongs to
  the engine and is the parameter \<open>mathExp\<close>: ECMAScript fixes its value at zero (1) and at
  \<^verbatim>\<open>-Infinity\<close> (0) and leaves the other values to the implementation, as approximations of
  the exponential function. \<open>accurateExp\<close> is what is assumed of it: on a double \<open>x \<le> 0\<close> the
  result is finite and within the relative error \<open>2 ^ (- 50)\<close> of \<open>e ^ x\<close>, up to the smallest
  positive double \<open>2 ^ (- 1074)\<close>. \<open>correctlyRoundedExp\<close>, the exponential rounded to the
  nearest double, is one such function. The search of \<^verbatim>\<open>findQuietWindow\<close> above is stated with
  the exact value of the formula, from which the double differs by at most \<open>10^-9\<close> for an
  accurate \<^verbatim>\<open>Math.exp\<close>.
\<close>

definition getRequiredWindowSizeInMs_double :: "(jsnum \<Rightarrow> jsnum) \<Rightarrow> real \<Rightarrow> jsnum" where
  "getRequiredWindowSizeInMs_double mathExp t =
     (let tInSeconds = jsDiv (Finite t) (Finite 1000);
          exponentiationComponent = mathExp (jsMul (toDouble (- (45 / 1000))) tInSeconds)
      in jsMul (jsAdd (jsMul (Finite 4) exponentiationComponent) (Finite 1)) (Finite 1000))"

definition accurateExp :: "(jsnum \<Rightarrow> jsnum) \<Rightarrow> bool" where
  "accurateExp mathExp \<longleftrightarrow>
     mathExp (Finite 0) = Finite 1
     \<and> mathExp NegInfinity = Finite 0
     \<and> (\<forall>x. isDouble x \<and> x \<le> 0 \<longrightarrow>
           (\<exists>y. mathExp (Finite x) = Finite y
                \<and> \<bar>y - exp x\<bar> \<le> exp x / 2 ^ 50 + 2 powr (- 1074)))"

fun correctlyRoundedExp :: "jsnum \<Rightarrow> jsnum" where
  "correctlyRoundedExp (Finite x) = toDouble (exp x)"
| "correctlyRoundedExp PosInfinity = PosInfinity"
| "correctlyRoundedExp NegInfinity = Finite 0"
| "correctlyRoundedExp NaN = NaN"


section \<open>The artifact cache\<close>

text \<open>
  \<^verbatim>\<open>computed-artifact.js\<close>, the base class of \<^verbatim>\<open>FirstInteractive\<close> that holds the cache, is
  not among the source files; the cache is modelled from section 4.3 of the
  specification. Scheduling is cooperative and single-threaded: a run of the system is a
  sequence of events, each a request of a caller or the completion of a computation.
\<close>

text \<open>
  Modelled from the spec: the key of a derived artifact, "(artifact name, trace identity)"
  (the cache of \<^verbatim>\<open>computed-artifact.js\<close> is missing).
\<close>

type_synonym artifactKey = "string \<times> nat"

text \<open>
  Modelled from the spec: what a computation of \<^verbatim>\<open>computed-artifact.js\<close> (missing) ends
  with, "a completed value" or a failure.
\<close>

datatype 'v outcome = Resolved 'v | Rejected error

text \<open>
  Modelled from the spec: a cache entry of \<^verbatim>\<open>computed-artifact.js\<close> (missing) "maps a key to
  either an in-flight computation or a completed value"; an in-flight entry holds the
  requesters attached to it, in order, and a failure is "cached as a failure".
\<close>

datatype 'v cacheEntry = InFlight "nat list" | Settled "'v outcome"

text \<open>
  Modelled from the spec: the state of the cache of \<^verbatim>\<open>computed-artifact.js\<close> (missing), its
  "key to result mapping", with two logs for stating the claim: the underlying computations
  started (the counter of section 8) and what each requester received.
\<close>

record 'v artifactCache =
  entries :: "artifactKey \<Rightarrow> 'v cacheEntry option"
  computations :: "artifactKey list"
  deliveries :: "(nat \<times> artifactKey \<times> 'v outcome) list"

text \<open>
  Modelled from the spec: the events at the suspension points of \<^verbatim>\<open>computed-artifact.js\<close>
  (missing): a requester calls \<^verbatim>\<open>request(artifactName, traceRef)\<close>, or the computation
  of a key completes with a value or a failure.
\<close>

datatype 'v cacheEvent = Request nat artifactKey | Complete artifactKey "'v outcome"

text \<open>
  Modelled from the spec: the cache of \<^verbatim>\<open>computed-artifact.js\<close> (missing) before the first
  request: entries are "created on first request".
\<close>

definition emptyCache :: "'v artifactCache" where
  "emptyCache = \<lparr>entries = Map.empty, computations = [], deliveries = []\<rparr>"

text \<open>
  Modelled from the spec: one step of the cache of \<^verbatim>\<open>computed-artifact.js\<close> (missing). A
  request for a key without entry starts the computation; "if a computation for the key is
  already in flight, a new request attaches to the same pending computation rather than
  starting another"; "once complete, the result is retained", and a request receives it at
  once; a failure "is cached as a failure and re-surfaced identically to all attached
  requesters (not silently retried)". A completion gives its outcome to every attached
  requester; without a computation in flight it does nothing.
\<close>

fun cacheStep :: "'v artifactCache \<Rightarrow> 'v cacheEvent \<Rightarrow> 'v artifactCache" where
  "cacheStep c (Request requester key) =
     (case entries c key of
        None \<Rightarrow> c\<lparr>entries := (entries c)(key \<mapsto> InFlight [requester]),
                   computations := computations c @ [key]\<rparr>
      | Some (InFlight waiting) \<Rightarrow>
          c\<lparr>entries := (entries c)(key \<mapsto> InFlight (waiting @ [requester]))\<rparr>
      | Some (Settled out) \<Rightarrow>
          c\<lparr>deliveries := deliveries c @ [(requester, key, out)]\<rparr>)"
| "cacheStep c (Complete key out) =
     (case entries c key of
        Some (InFlight waiting) \<Rightarrow>
          c\<lparr>entries := (entries c)(key \<mapsto> Settled out),
            deliveries := deliveries c @ map (\<lambda>requester. (requester, key, out)) waiting\<rparr>
      | _ \<Rightarrow> c)"

text \<open>
  Modelled from the spec: a run of the cache of \<^verbatim>\<open>computed-artifact.js\<close> (missing) from the
  empty cache.
\<close>

definition cacheRun :: "'v cacheEvent list \<Rightarrow> 'v artifactCache" where
  "cacheRun events = foldl cacheStep emptyCache events"

text \<open>
  The invariant of the cache for one key, after the events \<open>events\<close>: without entry the key
  was never requested, computed or delivered; with an entry it was requested and computed
  once; nothing is delivered while in flight, and only the settled outcome afterwards.
\<close>

definition cacheInvariant :: "'v cacheEvent list \<Rightarrow> 'v artifactCache \<Rightarrow> artifactKey \<Rightarrow> bool" where
  "cacheInvariant events c key \<longleftrightarrow>
     (case entries c key of
        None \<Rightarrow> (\<forall>r. Request r key \<notin> set events)
                \<and> count_list (computations c) key = 0
                \<and> (\<forall>(r, k, out)\<in>set (deliveries c). k \<noteq> key)
      | Some (InFlight waiting) \<Rightarrow>
          (\<exists>r. Request r key \<in> set events)
          \<and> count_list (computations c) key = 1
          \<and> (\<forall>(r, k, out)\<in>set (deliveries c). k \<noteq> key)
      | Some (Settled out) \<Rightarrow>
          (\<exists>r. Request r key \<in> set events)
          \<and> count_list (computations c) key = 1
          \<and> (\<forall>(r, k, out')\<in>set (deliveries c). k = key \<longrightarrow> out' = out))"

section \<open>Properties of first-interactive.js\<close>

subsection \<open>The required window size\<close>

lemma exp_ge_partial_sum:
  fixes x :: real
  assumes "0 \<le> x"
  shows "(\<Sum>k<n. x ^ k / fact k) \<le> exp x"
proof -
  have "(\<Sum>k<n. x ^ k /\<^sub>R fact k) \<le> (\<Sum>k. x ^ k /\<^sub>R fact k)"
  proof (rule sum_le_suminf)
    show "summable (\<lambda>k. x ^ k /\<^sub>R fact k)" by (rule summable_exp_generic)
  qed (use assms in auto)
  then show ?thesis
    by (simp add: exp_def divide_inverse mult.commute)
qed

lemma exp_27_lower: "(14870 / 1000 :: real) < exp (27 / 10)"
proof -
  have "(14870 / 1000 :: real) < (\<Sum>k<10. (27 / 10) ^ k / fact k)"
    by (simp add: lessThan_nat_numeral lessThan_Suc fact_numeral power_divide)
  also have "\<dots> \<le> exp (27 / 10)"
    by (rule exp_ge_partial_sum) simp
  finally show ?thesis .
qed

lemma exp_neg_ge_partial_sum:
  fixes x :: real
  assumes "0 \<le> x" "x \<le> 1"
  shows "(\<Sum>k<2 * n. (- 1) ^ k * (x ^ k / fact k)) \<le> exp (- x)"
proof -
  have s: "(\<lambda>k. x ^ k / fact k) \<longlonglongrightarrow> 0"
    using summable_LIMSEQ_zero[OF summable_exp_generic[of x]] by (simp add: divide_inverse mult.commute)
  have m: "x ^ Suc k / fact (Suc k) \<le> x ^ k / fact k" for k
  proof -
    have "x ^ Suc k / fact (Suc k) = (x ^ k / fact k) * (x / (1 + real k))"
      by (simp add: field_simps)
    also have "\<dots> \<le> (x ^ k / fact k) * 1"
      by (rule mult_left_mono) (use assms in \<open>auto simp: field_simps\<close>)
    finally show ?thesis by simp
  qed
  have p: "0 \<le> x ^ k / fact k" for k
    using assms by simp
  have l: "(\<Sum>k<2 * n. (- 1) ^ k * (x ^ k / fact k)) \<le> (\<Sum>k. (- 1) ^ k * (x ^ k / fact k))"
    using summable_Leibniz'(2)[of "\<lambda>k. x ^ k / fact k" n, OF s p m] .
  have f: "(\<lambda>k. (- 1) ^ k * (x ^ k / fact k)) = (\<lambda>k. (- x) ^ k /\<^sub>R fact k)"
    by (rule ext) (simp add: power_minus[of x] divide_inverse)
  have "(\<Sum>k. (- 1) ^ k * (x ^ k / fact k)) = exp (- x)"
    unfolding f by (simp add: exp_def)
  with l show ?thesis by simp
qed

lemma exp_27_upper: "(67 / 1000 :: real) < exp (- (27 / 10))"
proof -
  have "(74081 / 100000 :: real) \<le> (\<Sum>k<2 * 3. (- 1) ^ k * ((3 / 10) ^ k / fact k))"
    by (simp add: lessThan_nat_numeral lessThan_Suc fact_numeral power_divide)
  also have "\<dots> \<le> exp (- (3 / 10))"
    by (rule exp_neg_ge_partial_sum) simp_all
  finally have a: "(74081 / 100000 :: real) \<le> exp (- (3 / 10))" .
  have "(67 / 1000 :: real) < (74081 / 100000) ^ 9"
    by (simp add: power_divide)
  also have "\<dots> \<le> exp (- (3 / 10)) ^ 9"
    by (rule power_mono[OF a]) simp
  also have "\<dots> = exp (- (27 / 10))"
    by (simp add: exp_of_nat_mult[symmetric])
  finally show ?thesis .
qed

lemma ws_60000: "1268 < getRequiredWindowSizeInMs 60000 \<and> getRequiredWindowSizeInMs 60000 < 1269"
proof -
  have e: "exp (- (27 / 10) :: real) = 1 / exp (27 / 10)"
    by (simp add: exp_minus field_simps)
  have "exp (- (27 / 10) :: real) < 1000 / 14870"
    unfolding e using exp_27_lower by (simp add: field_simps)
  with exp_27_upper show ?thesis
    by (simp add: getRequiredWindowSizeInMs_def)
qed

lemma ws_lim: "(getRequiredWindowSizeInMs \<longlongrightarrow> 1000) at_top"
proof -
  have a: "filterlim (\<lambda>t::real. (45 / 1000000) * t) at_top at_top"
    by (rule filterlim_tendsto_pos_mult_at_top[OF tendsto_const _ filterlim_ident]) simp
  have b: "filterlim (\<lambda>t::real. - ((45 / 1000000) * t)) at_bot at_top"
    using a by (simp add: filterlim_uminus_at_top)
  have c: "((\<lambda>t::real. exp (- ((45 / 1000000) * t))) \<longlongrightarrow> 0) at_top"
    by (rule filterlim_compose[OF exp_at_bot b])
  have "((\<lambda>t::real. (4 * exp (- ((45 / 1000000) * t)) + 1) * 1000) \<longlongrightarrow> (4 * 0 + 1) * 1000) at_top"
    by (intro tendsto_intros c)
  moreover have "getRequiredWindowSizeInMs = (\<lambda>t::real. (4 * exp (- ((45 / 1000000) * t)) + 1) * 1000)"
    by (rule ext) (simp add: getRequiredWindowSizeInMs_def)
  ultimately show ?thesis by simp
qed

subsection \<open>The clustering loop\<close>
































subsection \<open>The candidates of the search\<close>




section \<open>The claims about first-interactive.js\<close>












section \<open>Rounding to double precision\<close>

lemma roundHalfEven_error: "\<bar>of_int (roundHalfEven q) - q\<bar> \<le> 1 / 2"
  unfolding roundHalfEven_def Let_def by (auto simp: abs_if) linarith+

lemma roundHalfEven_of_int [simp]: "roundHalfEven (of_int n) = n"
  by (simp add: roundHalfEven_def)

lemma roundHalfEven_near:
  "\<bar>q - of_int m\<bar> < 1 / 2 \<Longrightarrow> roundHalfEven q = m"
proof -
  assume a: "\<bar>q - of_int m\<bar> < 1 / 2"
  have b: "\<bar>of_int (roundHalfEven q) - q\<bar> \<le> 1 / 2" by (rule roundHalfEven_error)
  have "\<bar>of_int (roundHalfEven q) - (of_int m :: real)\<bar> < 1" using a b by linarith
  then have "\<bar>(of_int (roundHalfEven q - m) :: real)\<bar> < 1" by simp
  then have "\<bar>roundHalfEven q - m\<bar> < 1" by linarith
  then show ?thesis by linarith
qed

lemma ulpOf_pos [simp]: "0 < ulpOf x"
  by (simp add: ulpOf_def)

lemma ulpOf_normal:
  assumes "2 powr of_int k \<le> \<bar>x\<bar>" "\<bar>x\<bar> < 2 powr of_int (k + 1)" "- 1022 \<le> k"
  shows "ulpOf x = 2 powr (of_int k - 52)"
proof -
  have "0 < \<bar>x\<bar>" using assms(1) by (smt (verit) powr_gt_zero)
  then have "\<lfloor>log 2 \<bar>x\<bar>\<rfloor> = k"
    using assms by (simp add: floor_log_eq_powr_iff)
  then show ?thesis using assms(3) by (simp add: ulpOf_def max_def)
qed

lemma ulpOf_subnormal:
  assumes "x \<noteq> 0" "\<bar>x\<bar> < 2 powr (- 1022)"
  shows "ulpOf x = 2 powr (- 1074)"
proof -
  have "log 2 \<bar>x\<bar> < - 1022"
    using assms by (simp add: log_less_iff)
  then have "\<lfloor>log 2 \<bar>x\<bar>\<rfloor> < - 1022" by linarith
  then show ?thesis by (simp add: ulpOf_def max_def)
qed

lemma ulpOf_le:
  assumes "x \<noteq> 0"
  shows "ulpOf x \<le> max (\<bar>x\<bar> / 2 ^ 52) (2 powr (- 1074))"
proof (cases "\<bar>x\<bar> < 2 powr (- 1022)")
  case True
  then show ?thesis using ulpOf_subnormal[OF assms] by simp
next
  case False
  define k where "k = \<lfloor>log 2 \<bar>x\<bar>\<rfloor>"
  have pos: "0 < \<bar>x\<bar>" using assms by simp
  have k: "2 powr of_int k \<le> \<bar>x\<bar>" "\<bar>x\<bar> < 2 powr of_int (k + 1)"
    using floor_log_eq_powr_iff[of "\<bar>x\<bar>" 2 k] pos by (simp_all add: k_def)
  have "- 1022 \<le> log 2 \<bar>x\<bar>" using False pos by (simp add: le_log_iff)
  then have "- 1022 \<le> k" unfolding k_def by linarith
  then have "ulpOf x = 2 powr (of_int k - 52)" using ulpOf_normal[OF k] by simp
  also have "\<dots> = 2 powr of_int k / 2 ^ 52" by (simp add: powr_diff)
  also have "\<dots> \<le> \<bar>x\<bar> / 2 ^ 52" using k(1) by (simp add: divide_right_mono)
  finally show ?thesis by simp
qed


lemma toDouble_0 [simp]: "toDouble 0 = Finite 0"
  by (simp add: toDouble_def)

lemma toDouble_cases:
  assumes "x \<noteq> 0"
  obtains (finite) "toDouble x = Finite (of_int (roundHalfEven (x / ulpOf x)) * ulpOf x)"
      "\<bar>of_int (roundHalfEven (x / ulpOf x)) * ulpOf x\<bar> < 2 ^ 1024"
    | (overflow) "toDouble x = infinityOfSign (0 < x)"
      "\<bar>of_int (roundHalfEven (x / ulpOf x)) * ulpOf x\<bar> \<ge> 2 ^ 1024"
  using assms by (cases "\<bar>of_int (roundHalfEven (x / ulpOf x)) * ulpOf x\<bar> \<ge> 2 ^ 1024")
    (simp_all add: toDouble_def Let_def)

lemma round_error_ulp:
  "\<bar>of_int (roundHalfEven (x / ulpOf x)) * ulpOf x - x\<bar> \<le> ulpOf x / 2"
proof -
  define u where "u = ulpOf x"
  define n where "n = roundHalfEven (x / u)"
  have u: "0 < u" by (simp add: u_def)
  have "of_int n * u - x = (of_int n - x / u) * u"
    using u by (simp add: field_simps)
  then have "\<bar>of_int n * u - x\<bar> = \<bar>of_int n - x / u\<bar> * u"
    using u by (simp add: abs_mult)
  also have "\<dots> \<le> (1 / 2) * u"
    unfolding n_def using u by (intro mult_right_mono roundHalfEven_error) simp
  finally show ?thesis by (simp add: u_def n_def)
qed

text \<open>The standard model: relative error 2^-53, or absolute error 2^-1075 below the normal range.\<close>

lemma toDouble_error:
  assumes "\<bar>x\<bar> \<le> 2 ^ 1023"
  shows "\<exists>r. toDouble x = Finite r \<and> \<bar>r - x\<bar> \<le> \<bar>x\<bar> / 2 ^ 53 + 2 powr (- 1075)"
proof (cases "x = 0")
  case True
  then show ?thesis by simp
next
  case False
  define r where "r = of_int (roundHalfEven (x / ulpOf x)) * ulpOf x"
  define M :: real where "M = 2 ^ 1023"
  define t :: real where "t = 2 powr (- 1075)"
  have M: "4 \<le> M" unfolding M_def by simp
  have t: "0 \<le> t" "t \<le> 1" "2 powr (- 1074) / 2 = t"
    by (simp_all add: t_def powr_minus field_simps)
  have "ulpOf x / 2 \<le> max (\<bar>x\<bar> / 2 ^ 52) (2 powr (- 1074)) / 2"
    using ulpOf_le[OF False] by simp
  also have "\<dots> \<le> \<bar>x\<bar> / 2 ^ 53 + t"
    using t by (auto simp: max_def)
  finally have e: "\<bar>r - x\<bar> \<le> \<bar>x\<bar> / 2 ^ 53 + t"
    using round_error_ulp[of x] unfolding r_def by linarith
  have "\<bar>x\<bar> / 2 ^ 53 \<le> M / 2" using assms unfolding M_def[symmetric] by simp
  then have "\<bar>r\<bar> \<le> M + M / 2 + 1"
    using e assms t unfolding M_def[symmetric] by linarith
  also have "\<dots> < 2 * M" using M by simp
  also have "2 * M = 2 ^ 1024" unfolding M_def by (simp only: power_Suc[symmetric]) simp
  finally have "toDouble x = Finite r"
    using False by (simp only: toDouble_def Let_def r_def[symmetric]) simp
  with e show ?thesis unfolding t_def by blast
qed



lemma ulpOf_exponent:
  assumes "x \<noteq> 0"
  obtains e where "ulpOf x = 2 powr (of_int e - 52)" "- 1022 \<le> e"
    "e = - 1022 \<or> 2 powr of_int e \<le> \<bar>x\<bar>" "\<bar>x\<bar> < 2 powr (of_int e + 1)"
proof -
  define f where "f = \<lfloor>log 2 \<bar>x\<bar>\<rfloor>"
  define e where "e = max f (- 1022)"
  have pos: "0 < \<bar>x\<bar>" using assms by simp
  have f: "2 powr of_int f \<le> \<bar>x\<bar>" "\<bar>x\<bar> < 2 powr of_int (f + 1)"
    using floor_log_eq_powr_iff[of "\<bar>x\<bar>" 2 f] pos by (simp_all add: f_def)
  have 1: "ulpOf x = 2 powr (of_int e - 52)" by (simp add: ulpOf_def e_def f_def)
  have 2: "- 1022 \<le> e" by (simp add: e_def)
  have 3: "e = - 1022 \<or> 2 powr of_int e \<le> \<bar>x\<bar>" using f(1) by (auto simp: e_def max_def)
  have "(2::real) powr of_int (f + 1) \<le> 2 powr (of_int e + 1)"
    by (subst powr_le_cancel_iff) (simp_all add: e_def)
  then have 4: "\<bar>x\<bar> < 2 powr (of_int e + 1)" using f(2) by linarith
  from 1 2 3 4 show ?thesis by (rule that)
qed

lemma toDouble_exact:
  assumes x: "x = of_int m * 2 powr of_int k" and m: "\<bar>m\<bar> < 2 ^ 53" and k: "- 1074 \<le> k"
    and r: "\<bar>x\<bar> < 2 ^ 1024"
  shows "toDouble x = Finite x"
proof (cases "x = 0")
  case True
  then show ?thesis by simp
next
  case False
  obtain e where e: "ulpOf x = 2 powr (of_int e - 52)" "- 1022 \<le> e"
    "\<bar>x\<bar> < 2 powr (of_int e + 1)" "e = - 1022 \<or> 2 powr of_int e \<le> \<bar>x\<bar>"
    using ulpOf_exponent[OF False] by metis
  have le: "e - 52 \<le> k"
  proof (cases "e = - 1022")
    case True
    then show ?thesis using k by simp
  next
    case False
    then have "2 powr of_int e \<le> \<bar>x\<bar>" using e(4) by simp
    also have "\<bar>x\<bar> = \<bar>of_int m\<bar> * 2 powr of_int k" by (simp add: x abs_mult)
    also have "\<dots> < 2 ^ 53 * 2 powr of_int k"
    proof (rule mult_strict_right_mono)
      have "\<bar>(of_int m :: real)\<bar> = of_int \<bar>m\<bar>" by simp
      also have "\<dots> < of_int (2 ^ 53)" using m by (simp only: of_int_less_iff)
      finally show "\<bar>(of_int m :: real)\<bar> < 2 ^ 53" by simp
    qed simp
    also have "\<dots> = 2 powr (53 + of_int k)"
      by (simp add: powr_add)
    finally have "of_int e < (53::real) + of_int k" by (simp only: powr_less_cancel_iff) 
    then show ?thesis by linarith
  qed
  define d where "d = nat (k - (e - 52))"
  define u where "u = ulpOf x"
  have u: "0 < u" by (simp add: u_def)
  have "(2::real) powr of_int k = 2 powr (of_int (int d)) * 2 powr (of_int e - 52)"
    using le by (simp add: d_def powr_add[symmetric])
  also have "(2::real) powr (of_int (int d)) = 2 ^ d"
    by (simp add: powr_realpow)
  finally have "x = of_int (m * 2 ^ d) * u"
    unfolding u_def e(1) by (simp add: x)
  then have q: "x / u = of_int (m * 2 ^ d)" using u by simp
  then have "roundHalfEven (x / u) = m * 2 ^ d"
    by (simp only: roundHalfEven_of_int)
  then have "of_int (roundHalfEven (x / u)) * u = x"
    using \<open>x = of_int (m * 2 ^ d) * u\<close> by simp
  then show ?thesis using False r by (simp add: toDouble_def Let_def u_def)
qed

lemma toDouble_of_int:
  assumes "\<bar>n\<bar> \<le> 2 ^ 53"
  shows "toDouble (of_int n) = Finite (of_int n)"
proof (cases "\<bar>n\<bar> = 2 ^ 53")
  case False
  then have lt: "\<bar>n\<bar> < 2 ^ 53" using assms by simp
  then have "\<bar>(of_int n :: real)\<bar> < 2 ^ 53"
    by (metis of_int_abs of_int_less_iff of_int_numeral of_int_power)
  also have "\<dots> \<le> (2::real) ^ 1024" by (rule power_increasing) simp_all
  finally show ?thesis
    using toDouble_exact[of "of_int n" n 0] lt by simp
next
  case True
  then have "\<bar>(of_int n :: real)\<bar> = 2 ^ 53"
    by (metis of_int_abs of_int_numeral of_int_power)
  moreover have "(2::real) ^ 53 < 2 ^ 1024" by (rule power_strict_increasing) simp_all
  moreover have "n = 2 ^ 53 \<or> n = - (2 ^ 53)" using True by linarith
  then have "(of_int n :: real) = of_int (n div 2) * 2 powr of_int 1 \<and> \<bar>n div 2\<bar> < 2 ^ 53"
    by auto
  ultimately show ?thesis
    using toDouble_exact[of "of_int n" "n div 2" 1] by simp
qed

lemma roundHalfEven_ge: "of_int N \<le> q \<Longrightarrow> N \<le> roundHalfEven q"
  unfolding roundHalfEven_def Let_def by (auto simp: le_floor_iff) linarith+

lemma roundHalfEven_le: "q \<le> of_int N \<Longrightarrow> roundHalfEven q \<le> N"
proof (cases "q = of_int N")
  case True
  then show ?thesis by simp
next
  case False
  assume "q \<le> of_int N"
  with False have "q < of_int N" by simp
  then have "\<lfloor>q\<rfloor> < N" by (simp add: floor_less_iff)
  then show ?thesis unfolding roundHalfEven_def Let_def by auto
qed

lemma toDouble_overflow:
  assumes "\<bar>x\<bar> \<ge> 2 ^ 1024"
  shows "toDouble x = infinityOfSign (0 < x)"
proof -
  have nz: "x \<noteq> 0" using assms by auto
  obtain e where e: "ulpOf x = 2 powr (of_int e - 52)" "\<bar>x\<bar> < 2 powr (of_int e + 1)"
      "e = - 1022 \<or> 2 powr of_int e \<le> \<bar>x\<bar>"
    using ulpOf_exponent[OF nz] by metis
  define u where "u = ulpOf x"
  define n where "n = roundHalfEven (x / u)"
  have u: "0 < u" by (simp add: u_def)
  have big: "(2::real) powr 1024 \<le> \<bar>x\<bar>" using assms by simp
  then have "(2::real) powr 1024 < 2 powr (of_int e + 1)" using e(2) by linarith
  then have "(1024::real) < of_int e + 1" by (simp only: powr_less_cancel_iff one_less_numeral_iff semiring_norm)
  then have e1024: "1024 \<le> e" by linarith
  then have lo: "2 powr of_int e \<le> \<bar>x\<bar>" using e(3) by auto
  have pe: "(2::real) powr of_int e = 2 ^ 52 * u"
    unfolding u_def e(1) by (simp add: powr_diff)
  have ge: "(2::real) powr 1024 \<le> 2 powr of_int e"
    using e1024 by (subst powr_le_cancel_iff) simp_all
  have "2 ^ 52 \<le> \<bar>n\<bar>"
  proof (cases "0 < x")
    case True
    then have "of_int (2 ^ 52) \<le> x / u" using lo pe u by (simp add: field_simps)
    then have "2 ^ 52 \<le> n" unfolding n_def by (rule roundHalfEven_ge)
    then show ?thesis by simp
  next
    case False
    then have "x / u \<le> of_int (- (2 ^ 52))" using lo pe u nz by (simp add: field_simps)
    then have "n \<le> - (2 ^ 52)" unfolding n_def by (rule roundHalfEven_le)
    then show ?thesis by simp
  qed
  then have "(2::real) ^ 52 \<le> \<bar>of_int n\<bar>"
    by (metis of_int_abs of_int_le_iff of_int_numeral of_int_power)
  then have "2 ^ 52 * u \<le> \<bar>of_int n\<bar> * u" using u by (simp add: mult_right_mono)
  then have "2 powr 1024 \<le> \<bar>of_int n\<bar> * u" using ge pe by linarith
  moreover have "\<bar>of_int n * u\<bar> = \<bar>of_int n\<bar> * u" using u by (simp add: abs_mult)
  moreover have "(2::real) powr 1024 = 2 ^ 1024" by simp
  ultimately have "2 ^ 1024 \<le> \<bar>of_int (roundHalfEven (x / ulpOf x)) * ulpOf x\<bar>"
    unfolding n_def u_def by (simp only:)
  then show ?thesis using nz by (simp only: toDouble_def Let_def) simp
qed




lemma toDouble_near_1:
  assumes "\<bar>y - 1\<bar> \<le> 1 / 2 ^ 55"
  shows "toDouble y = Finite 1"
proof -
  have "(1::real) / 2 ^ 55 \<le> 1 / 2" by simp
  then have a: "\<bar>y - 1\<bar> \<le> 1 / 2" using assms by linarith
  have ypos: "0 < y" using a by linarith
  have nz: "y \<noteq> 0" using ypos by simp
  have half: "1 / 2 \<le> y" "y < 2" using a by linarith+
  show ?thesis
  proof (cases "1 \<le> y")
    case True
    have "ulpOf y = 2 powr (of_int 0 - 52)"
      using True half by (intro ulpOf_normal) simp_all
    then have u: "ulpOf y = 1 / 2 ^ 52" by (simp add: powr_minus field_simps)
    have "y / ulpOf y - of_int (2 ^ 52) = (y - 1) * 2 ^ 52"
      unfolding u by (simp add: left_diff_distrib)
    then have "\<bar>y / ulpOf y - of_int (2 ^ 52)\<bar> = \<bar>y - 1\<bar> * 2 ^ 52"
      by (simp only: abs_mult) simp
    also have "\<dots> \<le> 1 / 2 ^ 55 * 2 ^ 52" using assms by (intro mult_right_mono) simp_all
    also have "\<dots> < 1 / 2" by simp
    finally have "roundHalfEven (y / ulpOf y) = 2 ^ 52" by (rule roundHalfEven_near)
    then have "of_int (roundHalfEven (y / ulpOf y)) * ulpOf y = 1" by (simp add: u)
    then show ?thesis using nz by (simp add: toDouble_def Let_def)
  next
    case False
    have "ulpOf y = 2 powr (of_int (- 1) - 52)"
      using False half by (intro ulpOf_normal) (simp_all add: powr_minus field_simps)
    then have u: "ulpOf y = 1 / 2 ^ 53" by (simp add: powr_minus field_simps)
    have "y / ulpOf y - of_int (2 ^ 53) = (y - 1) * 2 ^ 53"
      unfolding u by (simp add: left_diff_distrib)
    then have "\<bar>y / ulpOf y - of_int (2 ^ 53)\<bar> = \<bar>y - 1\<bar> * 2 ^ 53"
      by (simp only: abs_mult) simp
    also have "\<dots> \<le> 1 / 2 ^ 55 * 2 ^ 53" using assms by (intro mult_right_mono) simp_all
    also have "\<dots> < 1 / 2" by simp
    finally have "roundHalfEven (y / ulpOf y) = 2 ^ 53" by (rule roundHalfEven_near)
    then have "of_int (roundHalfEven (y / ulpOf y)) * ulpOf y = 1" by (simp add: u)
    then show ?thesis using nz by (simp add: toDouble_def Let_def)
  qed
qed


lemma toDouble_not_NaN [simp]: "toDouble x \<noteq> NaN"
  by (simp add: toDouble_def Let_def infinityOfSign_def)

lemma toDouble_numeral [simp]:
  "numeral n \<le> (2::int) ^ 53 \<Longrightarrow> toDouble (numeral n) = Finite (numeral n)"
  using toDouble_of_int[of "numeral n"] by simp

lemma toDouble_neg_numeral [simp]:
  "numeral n \<le> (2::int) ^ 53 \<Longrightarrow> toDouble (- numeral n) = Finite (- numeral n)"
  using toDouble_of_int[of "- numeral n"] by simp

lemma toDouble_1 [simp]: "toDouble 1 = Finite 1"
  using toDouble_of_int[of 1] by simp

lemma toDouble_nonneg:
  assumes "0 \<le> x" "toDouble x = Finite r"
  shows "0 \<le> r"
proof (cases "x = 0")
  case True
  then show ?thesis using assms by simp
next
  case False
  have "(of_int 0 :: real) \<le> x / ulpOf x"
    using assms(1) ulpOf_pos[of x] by (simp add: zero_le_divide_iff less_imp_le)
  then have "0 \<le> roundHalfEven (x / ulpOf x)" by (rule roundHalfEven_ge)
  then have "0 \<le> of_int (roundHalfEven (x / ulpOf x)) * ulpOf x"
    using ulpOf_pos[of x] by (simp add: zero_le_mult_iff less_imp_le)
  moreover have "r = of_int (roundHalfEven (x / ulpOf x)) * ulpOf x"
    using assms(2) False by (simp add: toDouble_def Let_def infinityOfSign_def split: if_splits)
  ultimately show ?thesis by simp
qed

lemma toDouble_nonpos:
  assumes "x \<le> 0" "toDouble x = Finite r"
  shows "r \<le> 0"
proof (cases "x = 0")
  case True
  then show ?thesis using assms by simp
next
  case False
  have "x / ulpOf x \<le> (of_int 0 :: real)"
    using assms(1) ulpOf_pos[of x] by (simp add: divide_le_0_iff less_imp_le)
  then have "roundHalfEven (x / ulpOf x) \<le> 0" by (rule roundHalfEven_le)
  then have "of_int (roundHalfEven (x / ulpOf x)) * ulpOf x \<le> 0"
    using ulpOf_pos[of x] by (simp add: mult_le_0_iff less_imp_le)
  moreover have "r = of_int (roundHalfEven (x / ulpOf x)) * ulpOf x"
    using assms(2) False by (simp add: toDouble_def Let_def infinityOfSign_def split: if_splits)
  ultimately show ?thesis by simp
qed

lemma toDouble_half [simp]: "toDouble (1 / 2) = Finite (1 / 2)"
  using toDouble_exact[of "1 / 2" 1 "- 1"] by (simp add: powr_minus_divide)

lemma toDouble_quarter [simp]: "toDouble (1 / 4) = Finite (1 / 4)"
proof -
  have "(2::real) powr (- 2) = 1 / 4"
    by (simp add: powr_minus_divide)
  then show ?thesis using toDouble_exact[of "1 / 4" 1 "- 2"] by simp
qed

lemma toDouble_numeral_overflow [simp]:
  "(2::int) ^ 1024 \<le> numeral n \<Longrightarrow> toDouble (numeral n) = PosInfinity"
proof -
  assume "(2::int) ^ 1024 \<le> numeral n"
  then have "(of_int (2 ^ 1024) :: real) \<le> of_int (numeral n)" by (simp only: of_int_le_iff)
  then have "(2::real) ^ 1024 \<le> \<bar>numeral n\<bar>" by simp
  from toDouble_overflow[OF this] show ?thesis by (simp add: infinityOfSign_def)
qed

lemma toDouble_neg_numeral_overflow [simp]:
  "(2::int) ^ 1024 \<le> numeral n \<Longrightarrow> toDouble (- numeral n) = NegInfinity"
proof -
  assume "(2::int) ^ 1024 \<le> numeral n"
  then have "(of_int (2 ^ 1024) :: real) \<le> of_int (numeral n)" by (simp only: of_int_le_iff)
  then have "(2::real) ^ 1024 \<le> \<bar>- numeral n\<bar>" by simp
  from toDouble_overflow[OF this] show ?thesis by (simp add: infinityOfSign_def)
qed

lemma round_error_rel:
  assumes "x \<noteq> 0"
  shows "\<bar>of_int (roundHalfEven (x / ulpOf x)) * ulpOf x - x\<bar> \<le> \<bar>x\<bar> / 2 ^ 53 + 2 powr (- 1075)"
proof -
  define t :: real where "t = 2 powr (- 1075)"
  have t: "0 \<le> t" "2 powr (- 1074) / 2 = t"
    by (simp_all add: t_def powr_minus field_simps)
  have "ulpOf x / 2 \<le> max (\<bar>x\<bar> / 2 ^ 52) (2 powr (- 1074)) / 2"
    using ulpOf_le[OF assms] by simp
  also have "\<dots> \<le> \<bar>x\<bar> / 2 ^ 53 + t"
    using t by (auto simp: max_def)
  finally show ?thesis
    using round_error_ulp[of x] unfolding t_def by linarith
qed

lemma toDouble_error_cases:
  obtains (finite) r where "toDouble x = Finite r" "\<bar>r - x\<bar> \<le> \<bar>x\<bar> / 2 ^ 53 + 2 powr (- 1075)"
  | (overflow) "toDouble x = infinityOfSign (0 < x)" "x \<noteq> 0"
proof (cases "x = 0")
  case True
  then have "toDouble x = Finite 0" "\<bar>0 - x\<bar> \<le> \<bar>x\<bar> / 2 ^ 53 + 2 powr (- 1075)" by simp_all
  then show ?thesis by (rule finite)
next
  case False
  then show ?thesis
  proof (cases rule: toDouble_cases)
    case finite
    then show ?thesis using round_error_rel[OF False] that(1) by blast
  next
    case overflow
    then show ?thesis using False that(2) by blast
  qed
qed

lemma tiny_le: "(2::real) powr (- 1075) \<le> 1 / (1000 * 2 ^ 53)"
proof -
  have "(2::real) powr (- 1075) \<le> 2 powr (- 63)"
    by (subst powr_le_cancel_iff) simp_all
  also have "\<dots> = 1 / 2 ^ 63" by (simp add: powr_minus_divide)
  also have "\<dots> \<le> 1 / (1000 * 2 ^ 53)" by simp
  finally show ?thesis .
qed

lemma toDouble_close:
  assumes "\<bar>x\<bar> \<le> B" "1 / 1000 \<le> B" "B \<le> 2 ^ 20"
  shows "\<exists>r. toDouble x = Finite r \<and> \<bar>r - x\<bar> \<le> B / 2 ^ 52"
proof -
  have "(2::real) ^ 20 \<le> 2 ^ 1023" by (rule power_increasing) simp_all
  then have "\<bar>x\<bar> \<le> 2 ^ 1023" using assms(1,3) by (meson order_trans)
  from toDouble_error[OF this] obtain r where
    r: "toDouble x = Finite r" "\<bar>r - x\<bar> \<le> \<bar>x\<bar> / 2 ^ 53 + 2 powr (- 1075)"
    by blast
  have "\<bar>x\<bar> / 2 ^ 53 \<le> B / 2 ^ 53" using assms(1) by (simp add: divide_right_mono)
  moreover have "(1::real) / (1000 * 2 ^ 53) \<le> B / 2 ^ 53"
    using assms(2) by (simp add: field_simps)
  moreover have "B / 2 ^ 53 + B / 2 ^ 53 = B / 2 ^ 52" by simp
  ultimately have "\<bar>r - x\<bar> \<le> B / 2 ^ 52" using r(2) tiny_le by linarith
  with r(1) show ?thesis by blast
qed

lemma toDouble_isDouble:
  assumes "toDouble x = Finite r"
  shows "isDouble r"
proof (cases "x = 0")
  case True
  then show ?thesis using assms by (simp add: isDouble_def)
next
  case False
  define n where "n = roundHalfEven (x / ulpOf x)"
  obtain e where e: "ulpOf x = 2 powr (of_int e - 52)" "- 1022 \<le> e"
      "\<bar>x\<bar> < 2 powr (of_int e + 1)"
    using ulpOf_exponent[OF False] by metis
  have r: "r = of_int n * ulpOf x" "\<bar>r\<bar> < 2 ^ 1024"
    using assms False unfolding n_def
    by (auto simp: toDouble_def Let_def infinityOfSign_def not_le split: if_splits)
  have u: "0 < ulpOf x" by simp
  have "2 powr (of_int e + 1) = 2 ^ 53 * ulpOf x"
    unfolding e(1) by (simp add: powr_diff powr_add)
  then have "\<bar>x\<bar> < 2 ^ 53 * ulpOf x" using e(3) by simp
  then have q: "\<bar>x / ulpOf x\<bar> < 2 ^ 53" using u by (simp add: field_simps)
  define M :: int where "M = 2 ^ 53"
  have Mr: "(of_int M :: real) = 2 ^ 53" by (simp add: M_def)
  have "\<bar>x / ulpOf x\<bar> < of_int M" using q unfolding Mr .
  then have "x / ulpOf x \<le> of_int M" "- of_int M \<le> x / ulpOf x"
    by linarith+
  then have "x / ulpOf x \<le> of_int M" "of_int (- M) \<le> x / ulpOf x"
    by (simp_all only: of_int_minus)
  then have "n \<le> M" "- M \<le> n"
    unfolding n_def by (auto intro: roundHalfEven_le roundHalfEven_ge)
  then have n: "n \<le> 2 ^ 53" "- (2 ^ 53) \<le> n" unfolding M_def by simp_all
  show ?thesis
  proof (cases "\<bar>n\<bar> < 2 ^ 53")
    case True
    have "r = of_int n * 2 powr of_int (e - 52)" using r(1) e(1) by simp
    from toDouble_exact[OF this True _ r(2)] show ?thesis
      using e(2) by (simp add: isDouble_def)
  next
    case False
    then have "n = 2 ^ 53 \<or> n = - (2 ^ 53)" using n by linarith
    then obtain s :: int where s: "\<bar>s\<bar> = 1" "n = s * 2 ^ 53" by (auto intro: that[of 1] that[of "- 1"])
    have "r = of_int s * (2 ^ 53 * ulpOf x)" using r(1) s(2) by simp
    also have "2 ^ 53 * ulpOf x = 2 powr of_int (e + 1)"
      unfolding e(1) by (simp add: powr_diff powr_add)
    finally have "r = of_int s * 2 powr of_int (e + 1)" .
    from toDouble_exact[OF this _ _ r(2)] show ?thesis
      using e(2) s(1) by (simp add: isDouble_def)
  qed
qed

section \<open>Properties of the report generator\<close>

subsection \<open>The weighted mean\<close>

lemma orZero_Finite [simp]: "orZero (Finite a) = Finite a"
  by simp

declare orZero.simps(2) [simp del]

lemma orZero_not_NaN: "orZero x \<noteq> NaN"
  by (cases x) auto

lemma arithmeticMean_not_NaN: "arithmeticMean items \<noteq> NaN"
  by (simp add: arithmeticMean_def Let_def orZero_not_NaN)

lemma orZero_toDouble [simp]: "orZero (toDouble x) = toDouble x"
  by (cases "toDouble x") simp_all

lemma foldl_arithmeticMeanReducer:
  "foldl arithmeticMeanReducer \<lparr>results_weight = W, results_sum = S\<rparr> items =
     \<lparr>results_weight = foldl jsAdd W (map (\<lambda>(s, w). orZero (Number w)) items),
      results_sum =
        foldl jsAdd S (map (\<lambda>(s, w). jsMul (orZero (Number s)) (orZero (Number w))) items)\<rparr>"
  by (induction items arbitrary: W S) (auto simp: arithmeticMeanReducer_def Let_def)

lemma arithmeticMean_jsSum:
  "arithmeticMean items =
     orZero (jsDiv (jsSum (map (\<lambda>(s, w). jsMul (orZero (Number s)) (orZero (Number w))) items))
                   (jsSum (map (\<lambda>(s, w). orZero (Number w)) items)))"
  by (simp add: arithmeticMean_def Let_def foldl_arithmeticMeanReducer jsSum_def)











subsection \<open>Scoring audits and categories\<close>

lemma scoreAudit_present:
  "resultsByAuditId (audit_id a) = Some r \<Longrightarrow>
   \<exists>y. scoreAudit resultsByAuditId a = Inr y \<and> audit_id y = audit_id a
        \<and> audit_weight y = audit_weight a \<and> result y = r
        \<and> auditScore y =
            (case score r of
               Boolean b \<Rightarrow> (if b then Finite 100 else Finite 0)
             | Undefined \<Rightarrow> Finite 0
             | Null \<Rightarrow> Finite 0
             | Num NaN \<Rightarrow> Finite 0
             | Num x \<Rightarrow> x)"
  by (cases "score r") (auto simp: scoreAudit_def Let_def split: jsnum.splits)

lemma scoreAudit_absent:
  "resultsByAuditId (audit_id a) = None \<Longrightarrow> scoreAudit resultsByAuditId a = Inl TypeError"
  by (simp add: scoreAudit_def)

lemma mapE_all_Inr:
  "(\<forall>x\<in>set xs. \<exists>y. f x = Inr y \<and> P y) \<Longrightarrow>
   \<exists>ys. mapE f xs = Inr ys \<and> length ys = length xs \<and> (\<forall>y\<in>set ys. P y)"
proof (induction xs)
  case Nil
  show ?case by simp
next
  case (Cons x xs)
  then obtain y ys where "f x = Inr y" "P y" "mapE f xs = Inr ys" "length ys = length xs"
      "\<forall>y\<in>set ys. P y"
    by auto
  then show ?case by simp
qed

lemma mapHeapE_all_Inr:
  assumes "\<forall>k\<in>set ks. \<forall>h. I h \<longrightarrow> (\<exists>y h'. f k h = (Inr y, h') \<and> P y \<and> I h')" "I h"
  shows "\<exists>ys h'. mapHeapE f ks h = (Inr ys, h') \<and> length ys = length ks
           \<and> (\<forall>y\<in>set ys. P y) \<and> I h'"
  using assms
proof (induction ks arbitrary: h)
  case Nil
  then show ?case by simp
next
  case (Cons k ks)
  obtain y h1 where 1: "f k h = (Inr y, h1)" "P y" "I h1"
    using Cons.prems by auto
  obtain ys h2 where 2: "mapHeapE f ks h1 = (Inr ys, h2)" "length ys = length ks"
      "\<forall>y\<in>set ys. P y" "I h2"
    using Cons.IH[of h1] Cons.prems(1) 1(3) by auto
  show ?case using 1 2 by simp
qed

lemma scoreCategory_ok:
  assumes "k \<in> fst ` set cats" "auditsHaveResults cats res h"
  shows "\<exists>y h'. scoreCategory cats res k h = (Inr y, h') \<and> scoredCategory res y
            \<and> auditsHaveResults cats res h'"
proof -
  obtain r where r: "map_of cats k = Some r"
    using assms(1) by (metis domD dom_map_of_conv_image_fst)
  then have kr: "(k, r) \<in> set cats" by (rule map_of_SomeD)
  let ?h = "h(r := (h r)\<lparr>category_id := Some k\<rparr>)"
  have au: "audits (?h q) = audits (h q)" for q by simp
  have inv: "auditsHaveResults cats res ?h"
    using assms(2) unfolding auditsHaveResults_def au .
  have "\<forall>a\<in>set (audits (h r)). \<exists>y. scoreAudit res a = Inr y \<and> scoredAudit res y"
  proof
    fix a assume "a \<in> set (audits (h r))"
    moreover have "\<forall>a\<in>set (audits (h r)). res (audit_id a) \<noteq> None"
      using assms(2) kr unfolding auditsHaveResults_def by blast
    ultimately obtain x where "res (audit_id a) = Some x"
      by auto
    then show "\<exists>y. scoreAudit res a = Inr y \<and> scoredAudit res y"
      using scoreAudit_present[of res a x] unfolding scoredAudit_def by auto
  qed
  from mapE_all_Inr[OF this] obtain ys where
    ys: "mapE (scoreAudit res) (audits (h r)) = Inr ys" "\<forall>y\<in>set ys. scoredAudit res y"
    by blast
  have "scoreCategory cats res k h =
          (Inr \<lparr>category_id = Some k, name = name (h r), description = description (h r),
                weight = weight (h r), audits = ys,
                categoryScore = arithmeticMean (map (\<lambda>a. (Num (auditScore a), audit_weight a)) ys)\<rparr>,
           ?h)"
    by (simp add: scoreCategory_def r ys Let_def)
  then show ?thesis
    using ys(2) inv by (simp add: scoredCategory_def arithmeticMean_not_NaN)
qed

lemma generateReportJson_ok:
  assumes "auditsHaveResults (config_categories cfg) res h"
  shows "\<exists>rep h'. generateReportJson cfg res h = (Inr rep, h')
           \<and> overallScore rep \<noteq> NaN
           \<and> overallScore rep =
               arithmeticMean (map (\<lambda>c. (Num (categoryScore c), weight c)) (categories rep))
           \<and> length (categories rep) = length (config_categories cfg)
           \<and> (\<forall>c\<in>set (categories rep). scoredCategory res c)"
proof -
  let ?cats = "config_categories cfg"
  have "\<forall>k\<in>set (map fst ?cats). \<forall>h. auditsHaveResults ?cats res h \<longrightarrow>
          (\<exists>y h'. scoreCategory ?cats res k h = (Inr y, h') \<and> scoredCategory res y
                   \<and> auditsHaveResults ?cats res h')"
    using scoreCategory_ok[of _ ?cats res] by auto
  from mapHeapE_all_Inr[of "map fst ?cats" "auditsHaveResults ?cats res"
         "scoreCategory ?cats res" "scoredCategory res" h, OF this assms]
  obtain ys h' where
    "mapHeapE (scoreCategory ?cats res) (map fst ?cats) h = (Inr ys, h')"
    "length ys = length ?cats" "\<forall>y\<in>set ys. scoredCategory res y"
    by auto
  then show ?thesis
    by (simp add: generateReportJson_def Let_def arithmeticMean_not_NaN)
qed

lemma arithmeticMean_countedWeight:
  "arithmeticMean items = arithmeticMean (map (\<lambda>(s, w). (s, Num (countedWeight w))) items)"
proof -
  have "orZero (Number (Num (countedWeight w))) = orZero (Number w)" for w
    by (cases w rule: countedWeight.cases) simp_all
  then show ?thesis
    by (simp add: arithmeticMean_jsSum comp_def case_prod_unfold)
qed

subsection \<open>The heap after the report is generated\<close>

lemma scoreCategory_heap:
  "map_of cats k = Some r \<Longrightarrow> snd (scoreCategory cats res k h) = writeId h (k, r)"
  by (simp add: scoreCategory_def writeId_def Let_def split: sum.splits)

lemma scoreCategory_heap_absent:
  "map_of cats k = None \<Longrightarrow> scoreCategory cats res k h = (Inl TypeError, h)"
  by (simp add: scoreCategory_def)

lemma mapHeapE_scoreCategory_heap:
  assumes "mapHeapE (scoreCategory cats res) (map fst ps) h = (Inr ys, h')"
    and "\<forall>(k, r)\<in>set ps. map_of cats k = Some r"
  shows "h' = foldl writeId h ps"
  using assms
proof (induction ps arbitrary: h ys)
  case Nil
  then show ?case by simp
next
  case (Cons p ps)
  obtain k r where p: "p = (k, r)" by (cases p)
  have m: "map_of cats k = Some r" using Cons.prems(2) p by simp
  obtain out h1 where s: "scoreCategory cats res k h = (out, h1)" by (cases "scoreCategory cats res k h")
  have h1: "h1 = writeId h (k, r)"
    using scoreCategory_heap[OF m, of res h] s by simp
  from Cons.prems(1) p s obtain y ys' where
    "out = Inr y" "mapHeapE (scoreCategory cats res) (map fst ps) h1 = (Inr ys', h')"
    by (auto split: sum.splits prod.splits)
  then have "h' = foldl writeId h1 ps"
    using Cons.IH[of h1 ys'] Cons.prems(2) by simp
  then show ?case by (simp add: p h1)
qed

lemma foldl_writeId_other:
  "r \<notin> snd ` set ps \<Longrightarrow> foldl writeId h ps r = h r"
  by (induction ps arbitrary: h) (auto simp: writeId_def)

lemma foldl_writeId_frame:
  "foldl writeId h ps r = (h r)\<lparr>category_id := category_id (foldl writeId h ps r)\<rparr>"
proof (induction ps arbitrary: h)
  case Nil
  show ?case by simp
next
  case (Cons p ps)
  have "foldl writeId (writeId h p) ps r
          = (writeId h p r)\<lparr>category_id := category_id (foldl writeId (writeId h p) ps r)\<rparr>"
    by (rule Cons.IH)
  also have "\<dots> = (h r)\<lparr>category_id := category_id (foldl writeId (writeId h p) ps r)\<rparr>"
    by (simp add: writeId_def)
  finally show ?case by simp
qed

lemma foldl_writeId_unshared:
  "distinct (map snd ps) \<Longrightarrow> (k, r) \<in> set ps \<Longrightarrow>
     foldl writeId h ps r = (h r)\<lparr>category_id := Some k\<rparr>"
proof (induction ps arbitrary: h)
  case Nil
  then show ?case by simp
next
  case (Cons p ps)
  show ?case
  proof (cases "p = (k, r)")
    case True
    then have "r \<notin> snd ` set ps" using Cons.prems(1) by auto
    then have "foldl writeId (writeId h p) ps r = writeId h p r"
      by (rule foldl_writeId_other)
    moreover have "writeId h p r = (h r)\<lparr>category_id := Some k\<rparr>"
      using True by (simp add: writeId_def)
    ultimately show ?thesis by simp
  next
    case False
    then have in_ps: "(k, r) \<in> set ps" using Cons.prems(2) by simp
    then have "snd p \<noteq> r" using Cons.prems(1) by (cases p) force
    then have "writeId h p r = h r" by (simp add: writeId_def)
    then show ?thesis using Cons.IH[of "writeId h p"] Cons.prems(1) in_ps by simp
  qed
qed

lemma mapHeapE_scoreCategory_frame:
  "snd (mapHeapE (scoreCategory cats res) ks h) r
     = (h r)\<lparr>category_id := category_id (snd (mapHeapE (scoreCategory cats res) ks h) r)\<rparr>"
proof (induction ks arbitrary: h)
  case Nil
  show ?case by simp
next
  case (Cons k ks)
  obtain out h1 where s: "scoreCategory cats res k h = (out, h1)" by (cases "scoreCategory cats res k h")
  have f1: "h1 r = (h r)\<lparr>category_id := category_id (h1 r)\<rparr>"
  proof (cases "map_of cats k")
    case None
    then show ?thesis using s by (simp add: scoreCategory_heap_absent)
  next
    case (Some q)
    then have "h1 = writeId h (k, q)" using scoreCategory_heap[OF Some, of res h] s by simp
    then show ?thesis by (simp add: writeId_def)
  qed
  show ?case
  proof (cases out)
    case (Inl e)
    then show ?thesis using s f1 by simp
  next
    case (Inr y)
    let ?rest = "mapHeapE (scoreCategory cats res) ks h1"
    have "snd (mapHeapE (scoreCategory cats res) (k # ks) h) = snd ?rest"
      using s Inr by (simp split: prod.splits sum.splits)
    moreover have "snd ?rest r = (h1 r)\<lparr>category_id := category_id (snd ?rest r)\<rparr>"
      by (rule Cons.IH)
    ultimately show ?thesis using f1
      by (metis (no_types, lifting) category.surjective category.update_convs(1))
  qed
qed

lemma distinct_keys_map_of:
  "distinct (map fst cats) \<Longrightarrow> \<forall>(k, r)\<in>set cats. map_of cats k = Some r"
  by auto

lemma writeId_case: "writeId = (\<lambda>h (k, r). h(r := (h r)\<lparr>category_id := Some k\<rparr>))"
  by (auto simp: fun_eq_iff writeId_def)

lemma generateReportJson_Inr:
  "generateReportJson cfg res h = (Inr rep, h') \<Longrightarrow>
     mapHeapE (scoreCategory (config_categories cfg) res) (map fst (config_categories cfg)) h
       = (Inr (categories rep), h')"
  by (auto simp: generateReportJson_def Let_def split: prod.splits sum.splits)

lemma generateReportJson_snd:
  "snd (generateReportJson cfg res h) =
     snd (mapHeapE (scoreCategory (config_categories cfg) res) (map fst (config_categories cfg)) h)"
  by (auto simp: generateReportJson_def Let_def split: prod.splits sum.splits)

lemma mapHeapE_scoreCategory_prefix:
  assumes "\<forall>(k, r)\<in>set ps. map_of cats k = Some r"
  shows "\<exists>n\<le>length ps. (ps \<noteq> [] \<longrightarrow> 0 < n)
           \<and> snd (mapHeapE (scoreCategory cats res) (map fst ps) h) = foldl writeId h (take n ps)"
  using assms
proof (induction ps arbitrary: h)
  case Nil
  then show ?case by simp
next
  case (Cons p ps)
  obtain k r where p: "p = (k, r)" by (cases p)
  have m: "map_of cats k = Some r" using Cons.prems p by simp
  obtain out h1 where s: "scoreCategory cats res k h = (out, h1)"
    by (cases "scoreCategory cats res k h")
  have h1: "h1 = writeId h p"
    using scoreCategory_heap[OF m, of res h] s p by simp
  show ?case
  proof (cases out)
    case (Inl e)
    then have "snd (mapHeapE (scoreCategory cats res) (map fst (p # ps)) h)
                 = foldl writeId h (take 1 (p # ps))"
      using s h1 p by simp
    then show ?thesis by (intro exI[of _ 1]) simp
  next
    case (Inr y)
    obtain n where n: "n \<le> length ps"
        "snd (mapHeapE (scoreCategory cats res) (map fst ps) h1) = foldl writeId h1 (take n ps)"
      using Cons.IH[of h1] Cons.prems by auto
    have "snd (mapHeapE (scoreCategory cats res) (map fst (p # ps)) h)
            = snd (mapHeapE (scoreCategory cats res) (map fst ps) h1)"
      using s Inr p by (simp split: prod.splits sum.splits)
    then have "snd (mapHeapE (scoreCategory cats res) (map fst (p # ps)) h)
                 = foldl writeId h (take (Suc n) (p # ps))"
      using n(2) h1 by simp
    then show ?thesis using n(1) by (intro exI[of _ "Suc n"]) simp
  qed
qed

subsection \<open>The report of a configuration whose audits all have a result\<close>

lemma scoreAudit_reportAuditOf:
  "resultsByAuditId (audit_id a) \<noteq> None \<Longrightarrow>
     scoreAudit resultsByAuditId a = Inr (reportAuditOf resultsByAuditId a)"
proof -
  assume "resultsByAuditId (audit_id a) \<noteq> None"
  then obtain r where r: "resultsByAuditId (audit_id a) = Some r" by auto
  have "(case score r of Boolean b \<Rightarrow> if b then Finite 100 else Finite 0
          | _ \<Rightarrow> orZero (Number (score r))) = normalizedScore (score r)"
    by (cases "score r" rule: normalizedScore.cases) simp_all
  then show ?thesis
    by (simp add: scoreAudit_def reportAuditOf_def r Let_def)
qed

lemma mapE_scoreAudit:
  "\<forall>a\<in>set as. res (audit_id a) \<noteq> None \<Longrightarrow>
     mapE (scoreAudit res) as = Inr (map (reportAuditOf res) as)"
  by (induction as) (simp_all add: scoreAudit_reportAuditOf)

lemma mapE_scoreAudit_missing:
  "\<exists>a\<in>set as. res (audit_id a) = None \<Longrightarrow> mapE (scoreAudit res) as = Inl TypeError"
proof (induction as)
  case Nil
  then show ?case by simp
next
  case (Cons a as)
  show ?case
  proof (cases "res (audit_id a)")
    case None
    then show ?thesis by (simp add: scoreAudit_absent)
  next
    case (Some r)
    then have "scoreAudit res a = Inr (reportAuditOf res a)"
      by (simp add: scoreAudit_reportAuditOf)
    moreover have "mapE (scoreAudit res) as = Inl TypeError"
      using Cons Some by auto
    ultimately show ?thesis by simp
  qed
qed

lemma scoreCategory_reportCategoryOf:
  assumes "map_of cats k = Some r" "\<forall>a\<in>set (audits (h r)). res (audit_id a) \<noteq> None"
  shows "scoreCategory cats res k h = (Inr (reportCategoryOf res k (h r)), writeId h (k, r))"
proof -
  have "mapE (scoreAudit res) (audits (h r)) = Inr (map (reportAuditOf res) (audits (h r)))"
    using assms(2) by (rule mapE_scoreAudit)
  then show ?thesis
    by (simp add: scoreCategory_def assms(1) Let_def reportCategoryOf_def writeId_def comp_def
        reportAuditOf_def)
qed

lemma scoreCategory_missing:
  assumes "map_of cats k = Some r" "\<exists>a\<in>set (audits (h r)). res (audit_id a) = None"
  shows "fst (scoreCategory cats res k h) = Inl TypeError"
proof -
  have "mapE (scoreAudit res) (audits (h r)) = Inl TypeError"
    using assms(2) by (rule mapE_scoreAudit_missing)
  then show ?thesis
    by (simp add: scoreCategory_def assms(1) Let_def)
qed

lemma reportCategoryOf_writeId:
  "reportCategoryOf res k (writeId h p r) = reportCategoryOf res k (h r)"
  by (simp add: reportCategoryOf_def writeId_def)

lemma audits_writeId: "audits (writeId h p r) = audits (h r)"
  by (simp add: writeId_def)

lemma mapHeapE_scoreCategory_report:
  assumes "\<forall>(k, r)\<in>set ps. map_of cats k = Some r"
    and "\<forall>(k, r)\<in>set ps. \<forall>a\<in>set (audits (h r)). res (audit_id a) \<noteq> None"
  shows "mapHeapE (scoreCategory cats res) (map fst ps) h
           = (Inr (map (\<lambda>(k, r). reportCategoryOf res k (h r)) ps), foldl writeId h ps)"
  using assms
proof (induction ps arbitrary: h)
  case Nil
  show ?case by simp
next
  case (Cons p ps)
  obtain k r where p: "p = (k, r)" by (cases p)
  have m: "map_of cats k = Some r" using Cons.prems(1) p by simp
  have a: "\<forall>a\<in>set (audits (h r)). res (audit_id a) \<noteq> None" using Cons.prems(2) p by simp
  have s: "scoreCategory cats res k h = (Inr (reportCategoryOf res k (h r)), writeId h (k, r))"
    using m a by (rule scoreCategory_reportCategoryOf)
  have "mapHeapE (scoreCategory cats res) (map fst ps) (writeId h (k, r))
          = (Inr (map (\<lambda>(k', r'). reportCategoryOf res k' (writeId h (k, r) r')) ps),
             foldl writeId (writeId h (k, r)) ps)"
    using Cons.prems by (intro Cons.IH) (auto simp: audits_writeId)
  then show ?case
    by (simp add: p s reportCategoryOf_writeId)
qed

lemma mapHeapE_scoreCategory_missing:
  assumes "\<forall>(k, r)\<in>set ps. map_of cats k = Some r"
    and "\<exists>(k, r)\<in>set ps. \<exists>a\<in>set (audits (h r)). res (audit_id a) = None"
  shows "fst (mapHeapE (scoreCategory cats res) (map fst ps) h) = Inl TypeError"
  using assms
proof (induction ps arbitrary: h)
  case Nil
  then show ?case by simp
next
  case (Cons p ps)
  obtain k r where p: "p = (k, r)" by (cases p)
  have m: "map_of cats k = Some r" using Cons.prems(1) p by simp
  show ?case
  proof (cases "\<exists>a\<in>set (audits (h r)). res (audit_id a) = None")
    case True
    have "fst (scoreCategory cats res k h) = Inl TypeError"
      using m True by (rule scoreCategory_missing)
    then show ?thesis
      by (cases "scoreCategory cats res k h") (simp add: p)
  next
    case False
    then have s: "scoreCategory cats res k h
                    = (Inr (reportCategoryOf res k (h r)), writeId h (k, r))"
      using m by (intro scoreCategory_reportCategoryOf) auto
    have "\<exists>(k', r')\<in>set ps. \<exists>a\<in>set (audits (writeId h (k, r) r')). res (audit_id a) = None"
      using Cons.prems(2) False p by (auto simp: audits_writeId)
    then have "fst (mapHeapE (scoreCategory cats res) (map fst ps) (writeId h (k, r))) = Inl TypeError"
      using Cons.prems(1) by (intro Cons.IH) auto
    then show ?thesis
      by (cases "mapHeapE (scoreCategory cats res) (map fst ps) (writeId h (k, r))")
         (simp add: p s)
  qed
qed

lemma generateReportJson_report:
  assumes "distinct (map fst (config_categories cfg))"
    and "\<forall>(k, r)\<in>set (config_categories cfg). \<forall>a\<in>set (audits (h r)). res (audit_id a) \<noteq> None"
  shows "fst (generateReportJson cfg res h) =
           Inr \<lparr>overallScore =
                  arithmeticMean
                    (map (\<lambda>c. (Num (categoryScore c), weight c))
                       (map (\<lambda>(k, r). reportCategoryOf res k (h r)) (config_categories cfg))),
                categories = map (\<lambda>(k, r). reportCategoryOf res k (h r)) (config_categories cfg),
                aggregations =
                  getAggregations
                    (map (\<lambda>(k, r). reportCategoryOf res k (h r)) (config_categories cfg))\<rparr>"
proof -
  have "\<forall>(k, r)\<in>set (config_categories cfg). map_of (config_categories cfg) k = Some r"
    using assms(1) by (rule distinct_keys_map_of)
  from mapHeapE_scoreCategory_report[OF this assms(2)]
  show ?thesis
    by (simp add: generateReportJson_def Let_def)
qed

lemma generateReportJson_missing:
  assumes "distinct (map fst (config_categories cfg))"
    and "\<exists>(k, r)\<in>set (config_categories cfg). \<exists>a\<in>set (audits (h r)). res (audit_id a) = None"
  shows "fst (generateReportJson cfg res h) = Inl TypeError"
proof -
  have "\<forall>(k, r)\<in>set (config_categories cfg). map_of (config_categories cfg) k = Some r"
    using assms(1) by (rule distinct_keys_map_of)
  from mapHeapE_scoreCategory_missing[OF this assms(2)]
  show ?thesis
    by (cases "mapHeapE (scoreCategory (config_categories cfg) res)
                 (map fst (config_categories cfg)) h")
       (auto simp: generateReportJson_def Let_def split: sum.splits)
qed

section \<open>Properties of the required window size in double precision\<close>

lemma le_2_1023: "x \<le> 1 \<Longrightarrow> x \<le> (2::real) ^ 1023"
proof -
  assume "x \<le> 1"
  moreover have "(1::real) \<le> 2 ^ 1023" by (rule one_le_power) simp
  ultimately show ?thesis by (rule order_trans)
qed

lemma accurateExp_correctlyRoundedExp: "accurateExp correctlyRoundedExp"
  unfolding accurateExp_def
proof (intro conjI allI impI)
  show "correctlyRoundedExp (Finite 0) = Finite 1" by simp
  show "correctlyRoundedExp NegInfinity = Finite 0" by simp
  fix x :: real
  assume "isDouble x \<and> x \<le> 0"
  then have le: "exp x \<le> 1" by simp
  have "\<bar>exp x\<bar> \<le> 1" using le by simp
  then have "\<bar>exp x\<bar> \<le> 2 ^ 1023" by (rule le_2_1023)
  from toDouble_error[OF this] obtain r where
    r: "toDouble (exp x) = Finite r" "\<bar>r - exp x\<bar> \<le> \<bar>exp x\<bar> / 2 ^ 53 + 2 powr (- 1075)"
    by blast
  define p q :: real where "p = exp x / 2 ^ 53" and "q = exp x / 2 ^ 50"
  have "p \<le> q"
    unfolding p_def q_def by (intro divide_left_mono) simp_all
  moreover have "(2::real) powr (- 1075) \<le> 2 powr (- 1074)"
    by (subst powr_le_cancel_iff) simp_all
  moreover have "\<bar>r - exp x\<bar> \<le> p + 2 powr (- 1075)"
    using r(2) unfolding p_def by (simp only: abs_of_pos[OF exp_gt_zero])
  ultimately have "\<bar>r - exp x\<bar> \<le> q + 2 powr (- 1074)"
    by linarith
  then have "\<bar>r - exp x\<bar> \<le> exp x / 2 ^ 50 + 2 powr (- 1074)"
    unfolding q_def .
  with r(1) show "\<exists>y. correctlyRoundedExp (Finite x) = Finite y
           \<and> \<bar>y - exp x\<bar> \<le> exp x / 2 ^ 50 + 2 powr (- 1074)"
    by simp
qed

lemma exp_diff_le:
  fixes a b :: real
  assumes "a \<le> 0" "b \<le> 0"
  shows "\<bar>exp a - exp b\<bar> \<le> \<bar>a - b\<bar>"
proof -
  have *: "exp v - exp u \<le> v - u" if "u \<le> v" "v \<le> 0" for u v :: real
  proof -
    have "1 + (u - v) \<le> exp (u - v)" by (rule exp_ge_add_one_self)
    then have a: "1 - exp (u - v) \<le> v - u" by linarith
    have b: "exp v - exp u = exp v * (1 - exp (u - v))"
      by (simp add: exp_diff algebra_simps)
    have c: "0 \<le> 1 - exp (u - v)" using that by simp
    have d: "exp v \<le> 1" using that by simp
    define w where "w = exp v * (1 - exp (u - v))"
    have "w \<le> 1 * (1 - exp (u - v))"
      unfolding w_def using d c by (rule mult_right_mono)
    then have "w \<le> 1 - exp (u - v)" by (simp only: mult_1)
    then have "w \<le> v - u" using a by linarith
    moreover have "exp v - exp u = w" using b unfolding w_def .
    ultimately show ?thesis by linarith
  qed
  show ?thesis
  proof (cases "a \<le> b")
    case True
    then have "exp b - exp a \<le> b - a" using assms by (intro *)
    moreover have "exp a \<le> exp b" using True by simp
    ultimately show ?thesis using True by linarith
  next
    case False
    then have "exp a - exp b \<le> a - b" using assms by (intro *) simp_all
    moreover have "exp b \<le> exp a" using False by simp
    ultimately show ?thesis using False by linarith
  qed
qed

lemma literal_045:
  obtains c where "toDouble (- (45 / 1000)) = Finite c"
    "\<bar>c + 45 / 1000\<bar> \<le> (45 / 1000) / 2 ^ 52"
proof -
  from toDouble_close[of "- (45 / 1000)" "45 / 1000"]
  obtain c where "toDouble (- (45 / 1000)) = Finite c" "\<bar>c - (- (45 / 1000))\<bar> \<le> (45 / 1000) / 2 ^ 52"
    by auto
  then show ?thesis using that by simp
qed

lemma ws_double_unfold:
  "getRequiredWindowSizeInMs_double mathExp t =
     jsMul (jsAdd (jsMul (Finite 4)
                     (mathExp (jsMul (toDouble (- (45 / 1000))) (toDouble (t / 1000)))))
              (Finite 1))
       (Finite 1000)"
  by (simp add: getRequiredWindowSizeInMs_double_def Let_def)

lemma ws_tail_close:
  fixes e E :: real
  assumes E: "0 \<le> E" "E \<le> 1" and e: "\<bar>e - E\<bar> \<le> 145 / 2 ^ 52"
  shows "\<exists>h. jsMul (jsAdd (jsMul (Finite 4) (Finite e)) (Finite 1)) (Finite 1000) = Finite h
             \<and> \<bar>h - (4 * E + 1) * 1000\<bar> \<le> 597000 / 2 ^ 52"
proof -
  define d :: real where "d = 1 / 2 ^ 52"
  have d0: "0 < d" "d \<le> 1 / 1000" by (simp_all add: d_def)
  have e': "\<bar>e - E\<bar> \<le> 145 * d" using e by (simp add: d_def)
  have "\<bar>4 * e\<bar> \<le> 5" using e' E d0 by linarith
  from toDouble_close[OF this] obtain f where
    f: "toDouble (4 * e) = Finite f" "\<bar>f - 4 * e\<bar> \<le> 5 / 2 ^ 52"
    by auto
  have f': "\<bar>f - 4 * e\<bar> \<le> 5 * d" using f(2) by (simp add: d_def)
  have "\<bar>f + 1\<bar> \<le> 6" using f' e' E d0 by linarith
  from toDouble_close[OF this] obtain g where
    g: "toDouble (f + 1) = Finite g" "\<bar>g - (f + 1)\<bar> \<le> 6 / 2 ^ 52"
    by auto
  have g': "\<bar>g - (f + 1)\<bar> \<le> 6 * d" using g(2) by (simp add: d_def)
  have "\<bar>g * 1000\<bar> \<le> 6000" using g' f' e' E d0 by linarith
  from toDouble_close[OF this] obtain h where
    h: "toDouble (g * 1000) = Finite h" "\<bar>h - g * 1000\<bar> \<le> 6000 / 2 ^ 52"
    by auto
  have h': "\<bar>h - g * 1000\<bar> \<le> 6000 * d" using h(2) by (simp add: d_def)
  have s1: "\<bar>g * 1000 - (f + 1) * 1000\<bar> \<le> 6000 * d" using g' by argo
  have s2: "\<bar>(f + 1) * 1000 - (4 * e + 1) * 1000\<bar> \<le> 5000 * d" using f' by argo
  have s3: "\<bar>(4 * e + 1) * 1000 - (4 * E + 1) * 1000\<bar> \<le> 580000 * d" using e' by argo
  have "\<bar>h - (4 * E + 1) * 1000\<bar> \<le> 597000 * d"
    using h' s1 s2 s3 by argo
  then have "\<bar>h - (4 * E + 1) * 1000\<bar> \<le> 597000 / 2 ^ 52" by (simp add: d_def)
  moreover have "jsMul (jsAdd (jsMul (Finite 4) (Finite e)) (Finite 1)) (Finite 1000) = Finite h"
    by (simp add: f(1) g(1) h(1))
  ultimately show ?thesis by blast
qed

lemma ws_double_close:
  assumes acc: "accurateExp mathExp" and t: "0 \<le> t" "t \<le> 1000000"
  shows "\<exists>r. getRequiredWindowSizeInMs_double mathExp t = Finite r
             \<and> \<bar>r - getRequiredWindowSizeInMs t\<bar> \<le> 597000 / 2 ^ 52"
proof -
  define d :: real where "d = 1 / 2 ^ 52"
  have d0: "0 < d" "d \<le> 1 / 1000000" by (simp_all add: d_def)
  define x0 where "x0 = t / 1000"
  have x0: "0 \<le> x0" "x0 \<le> 1000" using t by (simp_all add: x0_def)
  have "\<bar>t / 1000\<bar> \<le> 1000" using t by simp
  from toDouble_close[OF this] obtain x1 where
    x1: "toDouble (t / 1000) = Finite x1" "\<bar>x1 - t / 1000\<bar> \<le> 1000 / 2 ^ 52"
    by auto
  have x1': "\<bar>x1 - x0\<bar> \<le> 1000 * d" using x1(2) by (simp add: d_def x0_def)
  have x1n: "0 \<le> x1" using toDouble_nonneg[OF _ x1(1)] t by simp
  obtain c where c: "toDouble (- (45 / 1000)) = Finite c"
      "\<bar>c + 45 / 1000\<bar> \<le> (45 / 1000) / 2 ^ 52"
    by (rule literal_045)
  have c': "\<bar>c + 45 / 1000\<bar> \<le> (45 / 1000) * d" using c(2) by (simp add: d_def)
  have cb: "c \<le> 0" "\<bar>c\<bar> \<le> 46 / 1000" using c' d0 by linarith+
  define z0 where "z0 = - (45 / 1000) * x0"
  have z0b: "z0 \<le> 0" "- 45 \<le> z0" using x0 by (simp_all add: z0_def)
  have split: "c * x1 - z0 = c * (x1 - x0) + (c + 45 / 1000) * x0"
    by (simp add: z0_def algebra_simps)
  have "\<bar>c * (x1 - x0)\<bar> = \<bar>c\<bar> * \<bar>x1 - x0\<bar>" by (rule abs_mult)
  also have "\<dots> \<le> (46 / 1000) * (1000 * d)"
    using cb(2) x1' by (intro mult_mono) simp_all
  finally have p1: "\<bar>c * (x1 - x0)\<bar> \<le> 46 * d" by simp
  have "\<bar>(c + 45 / 1000) * x0\<bar> = \<bar>c + 45 / 1000\<bar> * \<bar>x0\<bar>" by (rule abs_mult)
  also have "\<dots> \<le> ((45 / 1000) * d) * 1000"
    using c' x0 d0 by (intro mult_mono) simp_all
  finally have p2: "\<bar>(c + 45 / 1000) * x0\<bar> \<le> 45 * d" by simp
  define P where "P = c * x1"
  have cz: "\<bar>P - z0\<bar> \<le> 91 * d"
    using split p1 p2 unfolding P_def by linarith
  have Pn: "P \<le> 0" unfolding P_def using cb(1) x1n by (simp add: mult_nonpos_nonneg)
  have "\<bar>P\<bar> \<le> 46" using cz z0b d0 by linarith
  from toDouble_close[OF this] obtain z where
    z: "toDouble P = Finite z" "\<bar>z - P\<bar> \<le> 46 / 2 ^ 52"
    by auto
  have z': "\<bar>z - P\<bar> \<le> 46 * d" using z(2) by (simp add: d_def)
  have zn: "z \<le> 0" using toDouble_nonpos[OF Pn z(1)] .
  have zd: "isDouble z" using toDouble_isDouble[OF z(1)] .
  have zz: "\<bar>z - z0\<bar> \<le> 137 * d" using z' cz by linarith
  obtain e where e: "mathExp (Finite z) = Finite e"
      "\<bar>e - exp z\<bar> \<le> exp z / 2 ^ 50 + 2 powr (- 1074)"
    using acc zd zn unfolding accurateExp_def by blast
  have ez: "exp z \<le> 1" using zn by simp
  have "exp z / 2 ^ 50 \<le> 1 / 2 ^ 50" using ez by (simp add: divide_right_mono)
  then have e1: "exp z / 2 ^ 50 \<le> 4 * d" by (simp add: d_def)
  have "(2::real) powr (- 1074) \<le> 2 powr (- 52)"
    by (subst powr_le_cancel_iff) simp_all
  also have "\<dots> = d" by (simp add: d_def powr_minus_divide)
  finally have e2: "(2::real) powr (- 1074) \<le> d" .
  have e3: "\<bar>exp z - exp z0\<bar> \<le> \<bar>z - z0\<bar>" using zn z0b(1) by (rule exp_diff_le)
  define Q where "Q = exp z / 2 ^ 50"
  have "\<bar>e - exp z\<bar> \<le> Q + 2 powr (- 1074)" "Q \<le> 4 * d"
    using e(2) e1 unfolding Q_def by simp_all
  then have "\<bar>e - exp z0\<bar> \<le> 145 * d" using e2 e3 zz d0 by linarith
  then have ee: "\<bar>e - exp z0\<bar> \<le> 145 / 2 ^ 52" by (simp add: d_def)
  have "0 \<le> exp z0" "exp z0 \<le> 1" using z0b by simp_all
  from ws_tail_close[OF this ee] obtain h where
    h: "jsMul (jsAdd (jsMul (Finite 4) (Finite e)) (Finite 1)) (Finite 1000) = Finite h"
       "\<bar>h - (4 * exp z0 + 1) * 1000\<bar> \<le> 597000 / 2 ^ 52"
    by blast
  have "jsMul (toDouble (- (45 / 1000))) (toDouble (t / 1000)) = Finite z"
    unfolding c(1) x1(1) using z(1) by (simp add: P_def)
  then have "getRequiredWindowSizeInMs_double mathExp t = Finite h"
    unfolding ws_double_unfold using e(1) h(1) by simp
  moreover have "getRequiredWindowSizeInMs t = (4 * exp z0 + 1) * 1000"
    by (simp add: getRequiredWindowSizeInMs_def z0_def x0_def)
  ultimately show ?thesis using h(2) by simp
qed

lemma tiny_le_63: "(2::real) powr (- 1075) \<le> 1 / 2 ^ 63" "(2::real) powr (- 1074) \<le> 1 / 2 ^ 63"
proof -
  have "(2::real) powr (- 1075) \<le> 2 powr (- 63)" "(2::real) powr (- 1074) \<le> 2 powr (- 63)"
    by (subst powr_le_cancel_iff; simp)+
  moreover have "(2::real) powr (- 63) = 1 / 2 ^ 63" by (simp add: powr_minus_divide)
  ultimately show "(2::real) powr (- 1075) \<le> 1 / 2 ^ 63" "(2::real) powr (- 1074) \<le> 1 / 2 ^ 63"
    by simp_all
qed

lemma ws_tail_one:
  fixes e :: real
  assumes "\<bar>e\<bar> \<le> 1 / 2 ^ 58"
  shows "jsMul (jsAdd (jsMul (Finite 4) (Finite e)) (Finite 1)) (Finite 1000) = Finite 1000"
proof -
  have a: "\<bar>4 * e\<bar> \<le> 1 / 2 ^ 56" using assms by simp
  then have "\<bar>4 * e\<bar> \<le> 1" by simp
  then have "\<bar>4 * e\<bar> \<le> 2 ^ 1023" by (rule le_2_1023)
  from toDouble_error[OF this] obtain f where
    f: "toDouble (4 * e) = Finite f" "\<bar>f - 4 * e\<bar> \<le> \<bar>4 * e\<bar> / 2 ^ 53 + 2 powr (- 1075)"
    by blast
  define A where "A = \<bar>4 * e\<bar>"
  have "A / 2 ^ 53 \<le> A" unfolding A_def by (simp add: field_simps)
  moreover have "\<bar>f - 4 * e\<bar> \<le> A / 2 ^ 53 + 2 powr (- 1075)" "A \<le> 1 / 2 ^ 56"
    using f(2) a unfolding A_def by simp_all
  ultimately have "\<bar>f\<bar> \<le> 1 / 2 ^ 55"
    using tiny_le_63(1) unfolding A_def by (simp add: abs_le_iff) argo
  then have "\<bar>(f + 1) - 1\<bar> \<le> 1 / 2 ^ 55" by simp
  then have "toDouble (f + 1) = Finite 1" by (rule toDouble_near_1)
  then show ?thesis by (simp add: f(1))
qed

lemma exp_44: "exp (- 44 :: real) \<le> 1 / 2 ^ 62"
proof -
  have "(8 / 3 :: real) \<le> (\<Sum>k<4. 1 ^ k / fact k)"
    by (simp add: lessThan_nat_numeral lessThan_Suc fact_numeral)
  also have "\<dots> \<le> exp 1" by (rule exp_ge_partial_sum) simp
  finally have a: "(8 / 3 :: real) \<le> exp 1" .
  have "(2::real) ^ 62 \<le> (8 / 3) ^ 44" by (simp add: power_divide)
  also have "\<dots> \<le> exp 1 ^ 44" by (rule power_mono[OF a]) simp
  also have "\<dots> = exp (44 :: real)" by (simp add: exp_of_nat_mult[symmetric])
  finally have "(2::real) ^ 62 \<le> exp 44" .
  then have "1 / exp (44::real) \<le> 1 / 2 ^ 62" by (intro divide_left_mono) simp_all
  then show ?thesis by (simp add: exp_minus field_simps)
qed

lemma ws_double_plateau:
  assumes acc: "accurateExp mathExp" and t: "1000000 \<le> t"
  shows "getRequiredWindowSizeInMs_double mathExp t = Finite 1000"
proof -
  obtain c where c: "toDouble (- (45 / 1000)) = Finite c"
      "\<bar>c + 45 / 1000\<bar> \<le> (45 / 1000) / 2 ^ 52"
    by (rule literal_045)
  define D :: real where "D = (45 / 1000) / 2 ^ 52"
  have "D \<le> 1 / 10000" by (simp add: D_def)
  moreover have "\<bar>c + 45 / 1000\<bar> \<le> D" using c(2) unfolding D_def .
  ultimately have cb: "c \<le> - (449 / 10000)" by linarith
  have tail0: "jsMul (jsAdd (jsMul (Finite 4) (mathExp NegInfinity)) (Finite 1)) (Finite 1000)
                 = Finite 1000"
    using acc ws_tail_one[of 0] by (simp add: accurateExp_def)
  have neg: "jsMul (Finite c) PosInfinity = NegInfinity"
    using cb by (simp add: infinityOfSign_def)
  define x0 where "x0 = t / 1000"
  have x0: "1000 \<le> x0" using t by (simp add: x0_def)
  show ?thesis
  proof (rule toDouble_error_cases[of x0])
    assume overflow: "toDouble x0 = infinityOfSign (0 < x0)" "x0 \<noteq> 0"
    then have "toDouble (t / 1000) = PosInfinity"
      using x0 by (simp add: infinityOfSign_def x0_def)
    then show ?thesis
      unfolding ws_double_unfold c(1) by (simp only: neg tail0)
  next
    fix x1
    assume finite: "toDouble x0 = Finite x1" "\<bar>x1 - x0\<bar> \<le> \<bar>x0\<bar> / 2 ^ 53 + 2 powr (- 1075)"
    define B where "B = x0 / 2 ^ 53"
    have "B \<le> x0 / 1000" unfolding B_def using x0 by (intro divide_left_mono) simp_all
    moreover have "\<bar>x1 - x0\<bar> \<le> B + 2 powr (- 1075)"
      using finite(2) x0 unfolding B_def by simp
    ultimately have x1: "998 \<le> x1" using x0 tiny_le_63(1) by (simp add: abs_le_iff)
    define P where "P = c * x1"
    have "P \<le> - (449 / 10000) * x1"
      unfolding P_def using cb x1 by (intro mult_right_mono) simp_all
    then have P: "P \<le> - (445 / 10)" using x1 by argo
    have m: "jsMul (toDouble (- (45 / 1000))) (toDouble (t / 1000)) = toDouble P"
      unfolding c(1) using finite(1) by (simp add: x0_def P_def)
    show ?thesis
    proof (rule toDouble_error_cases[of P])
      assume overflow: "toDouble P = infinityOfSign (0 < P)" "P \<noteq> 0"
      then have "toDouble P = NegInfinity" using P by (simp add: infinityOfSign_def)
      then show ?thesis
        unfolding ws_double_unfold m by (simp only: tail0)
    next
      fix z
      assume finite: "toDouble P = Finite z" "\<bar>z - P\<bar> \<le> \<bar>P\<bar> / 2 ^ 53 + 2 powr (- 1075)"
      define C where "C = \<bar>P\<bar> / 2 ^ 53"
      have "C = - P / 2 ^ 53" unfolding C_def using P by simp
      moreover have "\<bar>z - P\<bar> \<le> C + 2 powr (- 1075)" using finite(2) unfolding C_def .
      ultimately have z: "z \<le> - 44" using P tiny_le_63(1) by (simp add: abs_le_iff)
      have zd: "isDouble z" using toDouble_isDouble[OF finite(1)] .
      obtain e where e: "mathExp (Finite z) = Finite e"
          "\<bar>e - exp z\<bar> \<le> exp z / 2 ^ 50 + 2 powr (- 1074)"
        using acc zd z unfolding accurateExp_def by (meson order_trans le_numeral_extra(3) neg_numeral_le_zero)
      have "exp z \<le> exp (- 44)" using z by simp
      then have ez: "exp z \<le> 1 / 2 ^ 62" using exp_44 by linarith
      define Q where "Q = exp z / 2 ^ 50"
      have "Q \<le> exp z" unfolding Q_def by (simp add: field_simps)
      moreover have "\<bar>e - exp z\<bar> \<le> Q + 2 powr (- 1074)" using e(2) unfolding Q_def .
      moreover have "0 < exp z" by simp
      ultimately have "\<bar>e\<bar> \<le> 1 / 2 ^ 58"
        using ez tiny_le_63(2) by (simp add: abs_le_iff) argo
      from ws_tail_one[OF this] show ?thesis
        unfolding ws_double_unfold m finite(1) e(1) .
    qed
  qed
qed

lemma ws_double_0:
  assumes "accurateExp mathExp"
  shows "getRequiredWindowSizeInMs_double mathExp 0 = Finite 5000"
proof -
  obtain c where c: "toDouble (- (45 / 1000)) = Finite c"
      "\<bar>c + 45 / 1000\<bar> \<le> (45 / 1000) / 2 ^ 52"
    by (rule literal_045)
  have "mathExp (Finite 0) = Finite 1" using assms by (simp add: accurateExp_def)
  then show ?thesis
    unfolding ws_double_unfold c(1) by simp
qed

lemma exp_27_upper_margin: "(671 / 10000 :: real) < exp (- (27 / 10))"
proof -
  have "(74081 / 100000 :: real) \<le> (\<Sum>k<2 * 3. (- 1) ^ k * ((3 / 10) ^ k / fact k))"
    by (simp add: lessThan_nat_numeral lessThan_Suc fact_numeral power_divide)
  also have "\<dots> \<le> exp (- (3 / 10))"
    by (rule exp_neg_ge_partial_sum) simp_all
  finally have a: "(74081 / 100000 :: real) \<le> exp (- (3 / 10))" .
  have "(671 / 10000 :: real) < (74081 / 100000) ^ 9"
    by (simp add: power_divide)
  also have "\<dots> \<le> exp (- (3 / 10)) ^ 9"
    by (rule power_mono[OF a]) simp
  also have "\<dots> = exp (- (27 / 10))"
    by (simp add: exp_of_nat_mult[symmetric])
  finally show ?thesis .
qed

lemma ws_60000_margin:
  "1268 + 1 / 10 < getRequiredWindowSizeInMs 60000
   \<and> getRequiredWindowSizeInMs 60000 < 1269 - 1 / 1000"
proof -
  have e: "exp (- (27 / 10) :: real) = 1 / exp (27 / 10)"
    by (simp add: exp_minus field_simps)
  have "exp (- (27 / 10) :: real) < 1000 / 14870"
    unfolding e using exp_27_lower by (simp add: field_simps)
  with exp_27_upper_margin show ?thesis
    by (simp add: getRequiredWindowSizeInMs_def)
qed

lemma ws_double_tolerance:
  assumes acc: "accurateExp mathExp" and t: "0 \<le> t"
  shows "\<exists>r. getRequiredWindowSizeInMs_double mathExp t = Finite r
             \<and> \<bar>r - getRequiredWindowSizeInMs t\<bar> \<le> 1 / 10 ^ 9"
proof (cases "t \<le> 1000000")
  case True
  from ws_double_close[OF acc t True] obtain r where
    r: "getRequiredWindowSizeInMs_double mathExp t = Finite r"
       "\<bar>r - getRequiredWindowSizeInMs t\<bar> \<le> 597000 / 2 ^ 52"
    by blast
  have "(597000 / 2 ^ 52 :: real) \<le> 1 / 10 ^ 9" by simp
  with r show ?thesis by (meson order_trans)
next
  case False
  then have t': "1000000 \<le> t" by simp
  have r: "getRequiredWindowSizeInMs_double mathExp t = Finite 1000"
    using acc t' by (rule ws_double_plateau)
  have "- (45 / 1000) * (t / 1000) \<le> - 44" using t' by simp
  then have "exp (- (45 / 1000) * (t / 1000)) \<le> exp (- 44)" by (simp only: exp_le_cancel_iff)
  then have "exp (- (45 / 1000) * (t / 1000)) \<le> 1 / 2 ^ 62" using exp_44 by linarith
  moreover have "0 < exp (- (45 / 1000) * (t / 1000))" by simp
  ultimately have "\<bar>1000 - getRequiredWindowSizeInMs t\<bar> \<le> 1 / 10 ^ 9"
    unfolding getRequiredWindowSizeInMs_def Let_def by (simp add: abs_le_iff)
  with r show ?thesis by blast
qed

lemma ws_formula:
  "getRequiredWindowSizeInMs t = (4 * exp (- 0.045 * (t / 1000)) + 1) * 1000"
  by (simp add: getRequiredWindowSizeInMs_def)

section \<open>The claims about the report generator\<close>




text \<open>
  Claim C8, as the specification states it, fails when \<^verbatim>\<open>resultsByAuditId\<close> has no entry for
  an audit of the configuration: \<^verbatim>\<open>result.score\<close> is read from \<^verbatim>\<open>undefined\<close> and
  \<^verbatim>\<open>generateReportJson\<close> throws a TypeError. It also fails for a weight that is not a number
  but the boolean \<^verbatim>\<open>true\<close>, which counts as the weight 1 and not as 0: with the audits
  \<^verbatim>\<open>{id: 'a', weight: true}\<close> of score 100 and \<^verbatim>\<open>{id: 'b', weight: 1}\<close> of score 0 the
  category score and the overall score are 50, where a weight defaulting to 0 would give 0.
\<close>

theorem generateReportJson_missing_result_counterexample:
  "fst (generateReportJson \<lparr>config_categories = [(''performance'', 0)]\<rparr> Map.empty
         (\<lambda>r. \<lparr>category_id = None, name = ''Performance'', description = ''timing'',
                weight = Num (Finite 1),
                audits = [\<lparr>audit_id = ''first-interactive'', audit_weight = Num (Finite 1)\<rparr>]\<rparr>))
     = Inl TypeError
   \<and> map_sum id (\<lambda>rep. (overallScore rep, map categoryScore (categories rep)))
       (fst (generateReportJson \<lparr>config_categories = [(''performance'', 0)]\<rparr>
          [''a'' \<mapsto> \<lparr>score = Num (Finite 100)\<rparr>, ''b'' \<mapsto> \<lparr>score = Num (Finite 0)\<rparr>]
          (\<lambda>r. \<lparr>category_id = None, name = ''Performance'', description = ''timing'',
                 weight = Num (Finite 1),
                 audits = [\<lparr>audit_id = ''a'', audit_weight = Boolean True\<rparr>,
                           \<lparr>audit_id = ''b'', audit_weight = Num (Finite 1)\<rparr>]\<rparr>)))
     = Inr (Finite 50, [Finite 50])
   \<and> arithmeticMean [(Num (Finite 100), Num (Finite 0)), (Num (Finite 0), Num (Finite 1))]
       = Finite 0"
  by (simp add: generateReportJson_def scoreCategory_def scoreAudit_def arithmeticMean_def
      arithmeticMeanReducer_def Let_def)

text \<open>
  Claim C8, amended. When every audit of the configuration has an entry in
  \<^verbatim>\<open>resultsByAuditId\<close>, \<^verbatim>\<open>generateReportJson\<close> returns, and the report is the one the
  configuration determines: its categories are those of the configuration, in order, each
  under its id with its name, description and weight; the audits of a category are those of
  the configuration, each with its raw result and its normalised score, which is 100 or 0
  for the booleans true and false, 0 for \<^verbatim>\<open>null\<close>, for a missing score and for \<^verbatim>\<open>NaN\<close>, and
  the raw score otherwise; the score of a category is the weighted mean of the normalised
  scores of its audits, and the overall score the weighted mean of the category scores. When
  some audit of the configuration has no entry, the call throws a TypeError. A weighted mean
  is never \<^verbatim>\<open>NaN\<close>, and a weight counts in it as 0 when it is missing, \<^verbatim>\<open>null\<close>, \<^verbatim>\<open>false\<close> or
  \<^verbatim>\<open>NaN\<close>, as 1 when it is \<^verbatim>\<open>true\<close>, and as itself otherwise. (The ids of a configuration
  are the keys of an object, so no two are equal.)
\<close>

theorem generateReportJson_scores:
  "(distinct (map fst (config_categories cfg))
      \<and> (\<forall>(k, r)\<in>set (config_categories cfg). \<forall>a\<in>set (audits (h r)).
            resultsByAuditId (audit_id a) \<noteq> None) \<longrightarrow>
      fst (generateReportJson cfg resultsByAuditId h) =
        Inr \<lparr>overallScore =
               arithmeticMean
                 (map (\<lambda>c. (Num (categoryScore c), weight c))
                    (map (\<lambda>(k, r). reportCategoryOf resultsByAuditId k (h r))
                       (config_categories cfg))),
             categories =
               map (\<lambda>(k, r). reportCategoryOf resultsByAuditId k (h r)) (config_categories cfg),
             aggregations =
               getAggregations
                 (map (\<lambda>(k, r). reportCategoryOf resultsByAuditId k (h r))
                    (config_categories cfg))\<rparr>)
   \<and> (distinct (map fst (config_categories cfg))
      \<and> (\<exists>(k, r)\<in>set (config_categories cfg). \<exists>a\<in>set (audits (h r)).
            resultsByAuditId (audit_id a) = None) \<longrightarrow>
      fst (generateReportJson cfg resultsByAuditId h) = Inl TypeError)
   \<and> reportCategoryOf resultsByAuditId k c =
       \<lparr>category_id = Some k, name = name c, description = description c, weight = weight c,
        audits =
          map (\<lambda>a. \<lparr>audit_id = audit_id a, audit_weight = audit_weight a,
                     result = the (resultsByAuditId (audit_id a)),
                     auditScore =
                       (case score (the (resultsByAuditId (audit_id a))) of
                          Boolean b \<Rightarrow> (if b then Finite 100 else Finite 0)
                        | Undefined \<Rightarrow> Finite 0
                        | Null \<Rightarrow> Finite 0
                        | Num NaN \<Rightarrow> Finite 0
                        | Num x \<Rightarrow> x)\<rparr>)
            (audits c),
        categoryScore =
          arithmeticMean
            (map (\<lambda>a. (Num (auditScore a), audit_weight a))
               (map (reportAuditOf resultsByAuditId) (audits c)))\<rparr>
   \<and> arithmeticMean items \<noteq> NaN
   \<and> arithmeticMean items =
       arithmeticMean
         (map (\<lambda>(s, w). (s, Num (case w of
                                    Boolean b \<Rightarrow> (if b then Finite 1 else Finite 0)
                                  | Undefined \<Rightarrow> Finite 0
                                  | Null \<Rightarrow> Finite 0
                                  | Num NaN \<Rightarrow> Finite 0
                                  | Num x \<Rightarrow> x)))
            items)"
proof (intro conjI impI)
  assume "distinct (map fst (config_categories cfg))
      \<and> (\<forall>(k, r)\<in>set (config_categories cfg). \<forall>a\<in>set (audits (h r)).
            resultsByAuditId (audit_id a) \<noteq> None)"
  then show "fst (generateReportJson cfg resultsByAuditId h) =
        Inr \<lparr>overallScore =
               arithmeticMean
                 (map (\<lambda>c. (Num (categoryScore c), weight c))
                    (map (\<lambda>(k, r). reportCategoryOf resultsByAuditId k (h r))
                       (config_categories cfg))),
             categories =
               map (\<lambda>(k, r). reportCategoryOf resultsByAuditId k (h r)) (config_categories cfg),
             aggregations =
               getAggregations
                 (map (\<lambda>(k, r). reportCategoryOf resultsByAuditId k (h r))
                    (config_categories cfg))\<rparr>"
    by (intro generateReportJson_report) simp_all
next
  assume "distinct (map fst (config_categories cfg))
      \<and> (\<exists>(k, r)\<in>set (config_categories cfg). \<exists>a\<in>set (audits (h r)).
            resultsByAuditId (audit_id a) = None)"
  then show "fst (generateReportJson cfg resultsByAuditId h) = Inl TypeError"
    by (intro generateReportJson_missing) simp_all
next
  have n: "normalizedScore v =
             (case v of
                Boolean b \<Rightarrow> (if b then Finite 100 else Finite 0)
              | Undefined \<Rightarrow> Finite 0
              | Null \<Rightarrow> Finite 0
              | Num NaN \<Rightarrow> Finite 0
              | Num x \<Rightarrow> x)" for v
    by (cases v rule: normalizedScore.cases) simp_all
  show "reportCategoryOf resultsByAuditId k c =
       \<lparr>category_id = Some k, name = name c, description = description c, weight = weight c,
        audits =
          map (\<lambda>a. \<lparr>audit_id = audit_id a, audit_weight = audit_weight a,
                     result = the (resultsByAuditId (audit_id a)),
                     auditScore =
                       (case score (the (resultsByAuditId (audit_id a))) of
                          Boolean b \<Rightarrow> (if b then Finite 100 else Finite 0)
                        | Undefined \<Rightarrow> Finite 0
                        | Null \<Rightarrow> Finite 0
                        | Num NaN \<Rightarrow> Finite 0
                        | Num x \<Rightarrow> x)\<rparr>)
            (audits c),
        categoryScore =
          arithmeticMean
            (map (\<lambda>a. (Num (auditScore a), audit_weight a))
               (map (reportAuditOf resultsByAuditId) (audits c)))\<rparr>"
    by (simp add: reportCategoryOf_def reportAuditOf_def n comp_def)
next
  show "arithmeticMean items \<noteq> NaN" by (rule arithmeticMean_not_NaN)
next
  have c: "countedWeight w =
             (case w of
                Boolean b \<Rightarrow> (if b then Finite 1 else Finite 0)
              | Undefined \<Rightarrow> Finite 0
              | Null \<Rightarrow> Finite 0
              | Num NaN \<Rightarrow> Finite 0
              | Num x \<Rightarrow> x)" for w
    by (cases w rule: countedWeight.cases) simp_all
  show "arithmeticMean items =
       arithmeticMean
         (map (\<lambda>(s, w). (s, Num (case w of
                                    Boolean b \<Rightarrow> (if b then Finite 1 else Finite 0)
                                  | Undefined \<Rightarrow> Finite 0
                                  | Null \<Rightarrow> Finite 0
                                  | Num NaN \<Rightarrow> Finite 0
                                  | Num x \<Rightarrow> x)))
            items)"
    using arithmeticMean_countedWeight[of items] unfolding c .
qed

theorem generateReportJson_scores_witness:
  "fst (generateReportJson \<lparr>config_categories = [(''performance'', 0)]\<rparr>
          [''a'' \<mapsto> \<lparr>score = Boolean True\<rparr>, ''b'' \<mapsto> \<lparr>score = Null\<rparr>]
          (\<lambda>r. \<lparr>category_id = None, name = ''Performance'', description = ''timing'',
                 weight = Num (Finite 1),
                 audits = [\<lparr>audit_id = ''a'', audit_weight = Num (Finite 1)\<rparr>,
                           \<lparr>audit_id = ''b'', audit_weight = Num (Finite 3)\<rparr>]\<rparr>))
     = Inr \<lparr>overallScore = Finite 25,
            categories =
              [\<lparr>category_id = Some ''performance'', name = ''Performance'',
                description = ''timing'', weight = Num (Finite 1),
                audits = [\<lparr>audit_id = ''a'', audit_weight = Num (Finite 1),
                           result = \<lparr>score = Boolean True\<rparr>, auditScore = Finite 100\<rparr>,
                          \<lparr>audit_id = ''b'', audit_weight = Num (Finite 3),
                           result = \<lparr>score = Null\<rparr>, auditScore = Finite 0\<rparr>],
                categoryScore = Finite 25\<rparr>],
            aggregations =
              [\<lparr>aggregation_name = ''Performance'', aggregation_description = ''timing'',
                categorizable = False, scored = False, total = Finite (1 / 4),
                aggregation_score =
                  [\<lparr>score_name = ''Performance'', score_description = ''timing'',
                    overall = Finite (1 / 4),
                    subItems = [\<lparr>score = Boolean True\<rparr>, \<lparr>score = Null\<rparr>]\<rparr>]\<rparr>]\<rparr>
   \<and> fst (generateReportJson \<lparr>config_categories = [(''performance'', 0)]\<rparr>
          [''a'' \<mapsto> \<lparr>score = Boolean True\<rparr>]
          (\<lambda>r. \<lparr>category_id = None, name = ''Performance'', description = ''timing'',
                 weight = Num (Finite 1),
                 audits = [\<lparr>audit_id = ''a'', audit_weight = Num (Finite 1)\<rparr>,
                           \<lparr>audit_id = ''b'', audit_weight = Num (Finite 3)\<rparr>]\<rparr>))
     = Inl TypeError"
proof -
  let ?cfg = "\<lparr>config_categories = [(''performance'', 0)]\<rparr>"
  let ?res = "[''a'' \<mapsto> \<lparr>score = Boolean True\<rparr>, ''b'' \<mapsto> \<lparr>score = Null\<rparr>]"
  let ?res' = "[''a'' \<mapsto> \<lparr>score = Boolean True\<rparr>]"
  let ?h = "\<lambda>r::nat. \<lparr>category_id = None, name = ''Performance'', description = ''timing'',
               weight = Num (Finite 1),
               audits = [\<lparr>audit_id = ''a'', audit_weight = Num (Finite 1)\<rparr>,
                         \<lparr>audit_id = ''b'', audit_weight = Num (Finite 3)\<rparr>]\<rparr>"
  have d: "distinct (map fst (config_categories ?cfg))" by simp
  have a: "\<forall>(k, r)\<in>set (config_categories ?cfg). \<forall>a\<in>set (audits (?h r)).
             ?res (audit_id a) \<noteq> None"
    by simp
  have m: "\<exists>(k, r)\<in>set (config_categories ?cfg). \<exists>a\<in>set (audits (?h r)).
             ?res' (audit_id a) = None"
    by simp
  have "fst (generateReportJson ?cfg ?res ?h) =
        Inr \<lparr>overallScore =
               arithmeticMean
                 (map (\<lambda>c. (Num (categoryScore c), weight c))
                    (map (\<lambda>(k, r). reportCategoryOf ?res k (?h r)) (config_categories ?cfg))),
             categories = map (\<lambda>(k, r). reportCategoryOf ?res k (?h r)) (config_categories ?cfg),
             aggregations =
               getAggregations
                 (map (\<lambda>(k, r). reportCategoryOf ?res k (?h r)) (config_categories ?cfg))\<rparr>"
    using generateReportJson_scores[of ?cfg ?h ?res] d a by blast
  then have 1: "fst (generateReportJson ?cfg ?res ?h) =
      Inr \<lparr>overallScore = Finite 25,
            categories =
              [\<lparr>category_id = Some ''performance'', name = ''Performance'',
                description = ''timing'', weight = Num (Finite 1),
                audits = [\<lparr>audit_id = ''a'', audit_weight = Num (Finite 1),
                           result = \<lparr>score = Boolean True\<rparr>, auditScore = Finite 100\<rparr>,
                          \<lparr>audit_id = ''b'', audit_weight = Num (Finite 3),
                           result = \<lparr>score = Null\<rparr>, auditScore = Finite 0\<rparr>],
                categoryScore = Finite 25\<rparr>],
            aggregations =
              [\<lparr>aggregation_name = ''Performance'', aggregation_description = ''timing'',
                categorizable = False, scored = False, total = Finite (1 / 4),
                aggregation_score =
                  [\<lparr>score_name = ''Performance'', score_description = ''timing'',
                    overall = Finite (1 / 4),
                    subItems = [\<lparr>score = Boolean True\<rparr>, \<lparr>score = Null\<rparr>]\<rparr>]\<rparr>]\<rparr>"
    by (simp add: reportCategoryOf_def reportAuditOf_def getAggregations_def arithmeticMean_def
        arithmeticMeanReducer_def Let_def)
  have 2: "fst (generateReportJson ?cfg ?res' ?h) = Inl TypeError"
    using generateReportJson_scores[of ?cfg ?h ?res'] d m by blast
  from 1 2 show ?thesis by (rule conjI)
qed

text \<open>
  Claim C10. A call of \<^verbatim>\<open>generateReportJson\<close> that returns has written, for each category
  id of \<^verbatim>\<open>config.categories\<close> in order, the id into the category object of the caller's
  configuration. Objects the configuration does not hold are unchanged; when no two ids share
  an object, each category object ends with its own id, and the heap differs from the one
  before the call as soon as one category did not hold its id already. Whether the call
  returns or throws, no field other than the id of any object is modified, and the ids
  written are those of the first \<open>n\<close> categories, with \<open>n\<close> at least 1 when there is a
  category (a call that throws has written the ids up to the category it throws at).
\<close>

theorem generateReportJson_writes_ids:
  "(distinct (map fst (config_categories cfg))
      \<and> generateReportJson cfg resultsByAuditId h = (Inr rep, h') \<longrightarrow>
      h' = foldl (\<lambda>h (k, r). h(r := (h r)\<lparr>category_id := Some k\<rparr>)) h (config_categories cfg)
      \<and> (\<forall>r. r \<notin> snd ` set (config_categories cfg) \<longrightarrow> h' r = h r)
      \<and> (distinct (map snd (config_categories cfg)) \<longrightarrow>
            (\<forall>(k, r)\<in>set (config_categories cfg). h' r = (h r)\<lparr>category_id := Some k\<rparr>)
            \<and> ((\<exists>(k, r)\<in>set (config_categories cfg). category_id (h r) \<noteq> Some k) \<longrightarrow> h' \<noteq> h)))
   \<and> (\<forall>r. snd (generateReportJson cfg resultsByAuditId h) r =
            (h r)\<lparr>category_id := category_id (snd (generateReportJson cfg resultsByAuditId h) r)\<rparr>)
   \<and> (distinct (map fst (config_categories cfg)) \<longrightarrow>
        (\<exists>n\<le>length (config_categories cfg).
           (config_categories cfg \<noteq> [] \<longrightarrow> 0 < n)
           \<and> snd (generateReportJson cfg resultsByAuditId h) =
               foldl (\<lambda>h (k, r). h(r := (h r)\<lparr>category_id := Some k\<rparr>)) h
                 (take n (config_categories cfg))))"
proof (intro conjI impI allI)
  fix r
  show "snd (generateReportJson cfg resultsByAuditId h) r =
            (h r)\<lparr>category_id := category_id (snd (generateReportJson cfg resultsByAuditId h) r)\<rparr>"
    unfolding generateReportJson_snd by (rule mapHeapE_scoreCategory_frame)
next
  assume "distinct (map fst (config_categories cfg))"
  then have "\<forall>(k, r)\<in>set (config_categories cfg). map_of (config_categories cfg) k = Some r"
    by (rule distinct_keys_map_of)
  from mapHeapE_scoreCategory_prefix[OF this, of resultsByAuditId h]
  show "\<exists>n\<le>length (config_categories cfg).
           (config_categories cfg \<noteq> [] \<longrightarrow> 0 < n)
           \<and> snd (generateReportJson cfg resultsByAuditId h) =
               foldl (\<lambda>h (k, r). h(r := (h r)\<lparr>category_id := Some k\<rparr>)) h
                 (take n (config_categories cfg))"
    unfolding generateReportJson_snd writeId_case .
next
  assume a: "distinct (map fst (config_categories cfg))
      \<and> generateReportJson cfg resultsByAuditId h = (Inr rep, h')"
  then have h': "h' = foldl writeId h (config_categories cfg)"
    using mapHeapE_scoreCategory_heap[OF generateReportJson_Inr, of cfg resultsByAuditId h rep h']
      distinct_keys_map_of[of "config_categories cfg"] by blast
  then show "h' = foldl (\<lambda>h (k, r). h(r := (h r)\<lparr>category_id := Some k\<rparr>)) h (config_categories cfg)"
    by (simp add: writeId_case)
  show "r \<notin> snd ` set (config_categories cfg) \<Longrightarrow> h' r = h r" for r
    unfolding h' by (rule foldl_writeId_other)
  assume d: "distinct (map snd (config_categories cfg))"
  show u: "\<forall>(k, r)\<in>set (config_categories cfg). h' r = (h r)\<lparr>category_id := Some k\<rparr>"
    unfolding h' using foldl_writeId_unshared[OF d] by auto
  assume "\<exists>(k, r)\<in>set (config_categories cfg). category_id (h r) \<noteq> Some k"
  then obtain k r where kr: "(k, r) \<in> set (config_categories cfg)" "category_id (h r) \<noteq> Some k"
    by auto
  then have "category_id (h' r) = Some k" using u by auto
  with kr(2) show "h' \<noteq> h" by auto
qed


theorem generateReportJson_writes_ids_witness:
  "snd (generateReportJson \<lparr>config_categories = [(''pwa'', 0), (''performance'', 1)]\<rparr> Map.empty
          (\<lambda>r. \<lparr>category_id = None, name = ''Category'', description = ''none'',
                 weight = Num (Finite 1), audits = []\<rparr>)) 1
     = \<lparr>category_id = Some ''performance'', name = ''Category'', description = ''none'',
        weight = Num (Finite 1), audits = []\<rparr>
   \<and> snd (generateReportJson \<lparr>config_categories = [(''pwa'', 0), (''performance'', 1)]\<rparr> Map.empty
          (\<lambda>r. \<lparr>category_id = None, name = ''Category'', description = ''none'',
                 weight = Num (Finite 1), audits = []\<rparr>)) 2
     = \<lparr>category_id = None, name = ''Category'', description = ''none'',
        weight = Num (Finite 1), audits = []\<rparr>
   \<and> snd (generateReportJson \<lparr>config_categories = [(''pwa'', 0), (''performance'', 1)]\<rparr> Map.empty
          (\<lambda>r. \<lparr>category_id = None, name = ''Category'', description = ''none'',
                 weight = Num (Finite 1), audits = []\<rparr>))
     \<noteq> (\<lambda>r. \<lparr>category_id = None, name = ''Category'', description = ''none'',
                 weight = Num (Finite 1), audits = []\<rparr>)"
proof -
  let ?cfg = "\<lparr>config_categories = [(''pwa'', 0::nat), (''performance'', 1)]\<rparr>"
  let ?res = "Map.empty :: string \<rightharpoonup> auditResult"
  let ?h = "\<lambda>r::nat. \<lparr>category_id = None, name = ''Category'', description = ''none'',
                 weight = Num (Finite 1), audits = [] :: auditRef list\<rparr>"
  have "auditsHaveResults (config_categories ?cfg) ?res ?h"
    by (simp add: auditsHaveResults_def)
  from generateReportJson_ok[OF this] obtain rep h' where
    g: "generateReportJson ?cfg ?res ?h = (Inr rep, h')"
    by blast
  have d: "distinct (map fst (config_categories ?cfg))" "distinct (map snd (config_categories ?cfg))"
    by simp_all
  have e: "\<exists>(k, r)\<in>set (config_categories ?cfg). category_id (?h r) \<noteq> Some k"
    by auto
  have t: "(\<forall>r. r \<notin> snd ` set (config_categories ?cfg) \<longrightarrow> h' r = ?h r)
      \<and> (\<forall>(k, r)\<in>set (config_categories ?cfg). h' r = (?h r)\<lparr>category_id := Some k\<rparr>)
      \<and> h' \<noteq> ?h"
    using generateReportJson_writes_ids[of ?cfg ?res ?h rep h'] g d e
    by blast
  have "(''performance'', 1) \<in> set (config_categories ?cfg)" by simp
  with t have "h' 1 = (?h 1)\<lparr>category_id := Some ''performance''\<rparr>" by blast
  moreover have "2 \<notin> snd ` set (config_categories ?cfg)" by simp
  with t have "h' 2 = ?h 2" by blast
  ultimately have "h' 1 = (?h 1)\<lparr>category_id := Some ''performance''\<rparr> \<and> h' 2 = ?h 2 \<and> h' \<noteq> ?h"
    using t by blast
  moreover have "snd (generateReportJson ?cfg ?res ?h) = h'"
    using g by simp
  ultimately show ?thesis
    by (simp only:) simp
qed
section \<open>The claim about the required window size\<close>

text \<open>
  Claim C6, as the specification states it, fails at its example: the required window size at
  t = 60000 is not below 1001 (it is about 1268.8), in exact arithmetic and in double
  precision alike. It also fails where it says strictly decreasing: in double precision
  \<open>4 * e^(-45) + 1\<close> rounds to 1, and the result is exactly 1000 at t = 1000000 and at
  t = 2000000.
\<close>

theorem getRequiredWindowSizeInMs_60000_counterexample:
  "\<not> getRequiredWindowSizeInMs 60000 < 1001
   \<and> (\<exists>r. getRequiredWindowSizeInMs_double correctlyRoundedExp 60000 = Finite r \<and> \<not> r < 1001)
   \<and> getRequiredWindowSizeInMs_double correctlyRoundedExp 1000000 = Finite 1000
   \<and> getRequiredWindowSizeInMs_double correctlyRoundedExp 2000000 = Finite 1000"
proof -
  have "\<not> getRequiredWindowSizeInMs 60000 < 1001" using ws_60000 by simp
  moreover have "\<exists>r. getRequiredWindowSizeInMs_double correctlyRoundedExp 60000 = Finite r
                     \<and> \<not> r < 1001"
    using ws_double_tolerance[OF accurateExp_correctlyRoundedExp, of 60000] ws_60000_margin
    by (auto simp: abs_le_iff)
  moreover have "getRequiredWindowSizeInMs_double correctlyRoundedExp 1000000 = Finite 1000"
    by (rule ws_double_plateau[OF accurateExp_correctlyRoundedExp]) simp
  moreover have "getRequiredWindowSizeInMs_double correctlyRoundedExp 2000000 = Finite 1000"
    by (rule ws_double_plateau[OF accurateExp_correctlyRoundedExp]) simp
  ultimately show ?thesis by blast
qed

text \<open>
  Claim C6, amended. With an accurate \<^verbatim>\<open>Math.exp\<close> (\<open>accurateExp\<close>), the double that
  \<^verbatim>\<open>getRequiredWindowSizeInMs\<close> returns is exactly 5000 at t = 0; for every t \<open>\<ge>\<close> 0 it is
  within \<open>10^-9\<close> of the exact value \<open>(4 * e^(-0.045 * t/1000) + 1) * 1000\<close>; it decreases in t
  up to that rounding error, in that the result at t is below the result at s plus
  \<open>2 * 10^-9\<close> whenever 0 \<open>\<le>\<close> s < t; it is exactly 1000 for every t \<open>\<ge>\<close> 1000000, which is how it
  tends to 1000 as t grows; and at t = 60000 it lies between 1268 and 1269.
\<close>

theorem getRequiredWindowSizeInMs_decay:
  "accurateExp mathExp \<longrightarrow>
     getRequiredWindowSizeInMs_double mathExp 0 = Finite 5000
     \<and> (\<forall>t\<ge>0. \<exists>r. getRequiredWindowSizeInMs_double mathExp t = Finite r
                  \<and> \<bar>r - (4 * exp (- 0.045 * (t / 1000)) + 1) * 1000\<bar> \<le> 1 / 10 ^ 9)
     \<and> (\<forall>s t. 0 \<le> s \<and> s < t \<longrightarrow>
           (\<exists>q r. getRequiredWindowSizeInMs_double mathExp s = Finite q
                  \<and> getRequiredWindowSizeInMs_double mathExp t = Finite r
                  \<and> r < q + 2 / 10 ^ 9))
     \<and> (\<forall>t\<ge>1000000. getRequiredWindowSizeInMs_double mathExp t = Finite 1000)
     \<and> (\<exists>r. getRequiredWindowSizeInMs_double mathExp 60000 = Finite r \<and> 1268 < r \<and> r < 1269)"
proof (intro impI conjI allI)
  assume acc: "accurateExp mathExp"
  show "getRequiredWindowSizeInMs_double mathExp 0 = Finite 5000"
    using acc by (rule ws_double_0)
  show "\<exists>r. getRequiredWindowSizeInMs_double mathExp t = Finite r
                  \<and> \<bar>r - (4 * exp (- 0.045 * (t / 1000)) + 1) * 1000\<bar> \<le> 1 / 10 ^ 9"
    if "0 \<le> t" for t
    using ws_double_tolerance[OF acc that] unfolding ws_formula .
  show "getRequiredWindowSizeInMs_double mathExp t = Finite 1000" if "1000000 \<le> t" for t
    using acc that by (rule ws_double_plateau)
  show "\<exists>r. getRequiredWindowSizeInMs_double mathExp 60000 = Finite r \<and> 1268 < r \<and> r < 1269"
  proof -
    obtain r where r: "getRequiredWindowSizeInMs_double mathExp 60000 = Finite r"
        "\<bar>r - getRequiredWindowSizeInMs 60000\<bar> \<le> 1 / 10 ^ 9"
      using ws_double_tolerance[OF acc, of 60000] by auto
    have "(1 / 10 ^ 9 :: real) \<le> 1 / 1000" by simp
    then have "1268 < r \<and> r < 1269" using r(2) ws_60000_margin by linarith
    with r(1) show ?thesis by blast
  qed
  show "\<exists>q r. getRequiredWindowSizeInMs_double mathExp s = Finite q
                  \<and> getRequiredWindowSizeInMs_double mathExp t = Finite r
                  \<and> r < q + 2 / 10 ^ 9"
    if st: "0 \<le> s \<and> s < t" for s t
  proof -
    obtain q where q: "getRequiredWindowSizeInMs_double mathExp s = Finite q"
        "\<bar>q - getRequiredWindowSizeInMs s\<bar> \<le> 1 / 10 ^ 9"
      using ws_double_tolerance[OF acc, of s] st by blast
    obtain r where r: "getRequiredWindowSizeInMs_double mathExp t = Finite r"
        "\<bar>r - getRequiredWindowSizeInMs t\<bar> \<le> 1 / 10 ^ 9"
      using ws_double_tolerance[OF acc, of t] st by auto
    have "getRequiredWindowSizeInMs t < getRequiredWindowSizeInMs s"
      using st by (simp add: getRequiredWindowSizeInMs_def)
    moreover have "(1 / 10 ^ 9 :: real) + 1 / 10 ^ 9 = 2 / 10 ^ 9" by simp
    ultimately have "r < q + 2 / 10 ^ 9" using q(2) r(2) by linarith
    with q(1) r(1) show ?thesis
      by blast
  qed
qed

theorem getRequiredWindowSizeInMs_decay_witness:
  "getRequiredWindowSizeInMs_double correctlyRoundedExp 0 = Finite 5000
   \<and> (\<exists>r. getRequiredWindowSizeInMs_double correctlyRoundedExp 2500 = Finite r
          \<and> \<bar>r - (4 * exp (- 0.045 * (2500 / 1000)) + 1) * 1000\<bar> \<le> 1 / 10 ^ 9)
   \<and> (\<exists>q r. getRequiredWindowSizeInMs_double correctlyRoundedExp 1000 = Finite q
            \<and> getRequiredWindowSizeInMs_double correctlyRoundedExp 2000 = Finite r
            \<and> r < q + 2 / 10 ^ 9)
   \<and> getRequiredWindowSizeInMs_double correctlyRoundedExp 1500000 = Finite 1000
   \<and> (\<exists>r. getRequiredWindowSizeInMs_double correctlyRoundedExp 60000 = Finite r
          \<and> 1268 < r \<and> r < 1269)"
proof -
  have t: "getRequiredWindowSizeInMs_double correctlyRoundedExp 0 = Finite 5000
     \<and> (\<forall>t\<ge>0. \<exists>r. getRequiredWindowSizeInMs_double correctlyRoundedExp t = Finite r
                  \<and> \<bar>r - (4 * exp (- 0.045 * (t / 1000)) + 1) * 1000\<bar> \<le> 1 / 10 ^ 9)
     \<and> (\<forall>s t. 0 \<le> s \<and> s < t \<longrightarrow>
           (\<exists>q r. getRequiredWindowSizeInMs_double correctlyRoundedExp s = Finite q
                  \<and> getRequiredWindowSizeInMs_double correctlyRoundedExp t = Finite r
                  \<and> r < q + 2 / 10 ^ 9))
     \<and> (\<forall>t\<ge>1000000. getRequiredWindowSizeInMs_double correctlyRoundedExp t = Finite 1000)
     \<and> (\<exists>r. getRequiredWindowSizeInMs_double correctlyRoundedExp 60000 = Finite r
            \<and> 1268 < r \<and> r < 1269)"
    using getRequiredWindowSizeInMs_decay [of correctlyRoundedExp] accurateExp_correctlyRoundedExp
    by blast
  have a: "(0::real) \<le> 2500" "(0::real) \<le> 1000 \<and> (1000::real) < 2000" "(1000000::real) \<le> 1500000"
    by simp_all
  from t a show ?thesis by blast
qed

section \<open>Properties of the artifact cache\<close>

lemma cacheRun_snoc: "cacheRun (events @ [e]) = cacheStep (cacheRun events) e"
  by (simp add: cacheRun_def)

lemma cacheInvariant_step:
  assumes "cacheInvariant events c key"
  shows "cacheInvariant (events @ [e]) (cacheStep c e) key"
proof (cases e)
  case (Request r k)
  show ?thesis
  proof (cases "k = key")
    case True
    then show ?thesis using assms Request
      by (auto simp: cacheInvariant_def split: option.splits cacheEntry.splits)
  next
    case False
    then show ?thesis using assms Request
      by (auto simp: cacheInvariant_def split: option.splits cacheEntry.splits)
  qed
next
  case (Complete k out)
  show ?thesis
  proof (cases "k = key")
    case True
    then show ?thesis using assms Complete
      by (auto simp: cacheInvariant_def split: option.splits cacheEntry.splits)
  next
    case False
    then show ?thesis using assms Complete
      by (auto simp: cacheInvariant_def split: option.splits cacheEntry.splits)
  qed
qed

lemma cacheInvariant_run: "cacheInvariant events (cacheRun events) key"
proof (induction events rule: rev_induct)
  case Nil
  show ?case by (simp add: cacheInvariant_def cacheRun_def emptyCache_def)
next
  case (snoc e events)
  then show ?case by (simp add: cacheRun_snoc cacheInvariant_step)
qed

lemma cacheRun_requests:
  "requesters \<noteq> [] \<Longrightarrow>
   entries (cacheRun (map (\<lambda>r. Request r key) requesters) :: 'v artifactCache) key
     = Some (InFlight requesters)
   \<and> computations (cacheRun (map (\<lambda>r. Request r key) requesters) :: 'v artifactCache) = [key]
   \<and> deliveries (cacheRun (map (\<lambda>r. Request r key) requesters) :: 'v artifactCache) = []"
proof (induction requesters rule: rev_induct)
  case Nil
  then show ?case by simp
next
  case (snoc r rs)
  show ?case
  proof (cases "rs = []")
    case True
    then show ?thesis by (simp add: cacheRun_def emptyCache_def)
  next
    case False
    let ?c = "cacheRun (map (\<lambda>r. Request r key) rs) :: 'v artifactCache"
    from snoc.IH False have e: "entries ?c key = Some (InFlight rs)"
      and c: "computations ?c = [key]" and d: "deliveries ?c = []"
      by simp_all
    have "cacheStep ?c (Request r key) = ?c\<lparr>entries := (entries ?c)(key \<mapsto> InFlight (rs @ [r]))\<rparr>"
      by (simp add: e)
    then show ?thesis by (simp add: cacheRun_snoc c d)
  qed
qed

text \<open>
  Claim C9, on the cache modelled from the specification. In every run, whatever the
  interleaving with other keys, the underlying computation of a key is started exactly once if
  the key is requested at all, and every requester of the key receives the same outcome, a
  failure included. In particular, when N callers request the same key before the computation
  completes, one computation runs and the completion gives its outcome to each of the N; a
  failure stays cached, and a later request receives the same failure without a new
  computation.
\<close>

theorem artifactCache_single_flight:
  fixes events :: "'v cacheEvent list" and out :: "'v outcome"
  shows
  "count_list (computations (cacheRun events)) key =
     (if \<exists>r. Request r key \<in> set events then 1 else 0)
   \<and> (\<forall>r r' out out'.
         (r, key, out) \<in> set (deliveries (cacheRun events))
         \<and> (r', key, out') \<in> set (deliveries (cacheRun events)) \<longrightarrow> out = out')
   \<and> (requesters \<noteq> [] \<longrightarrow>
         computations (cacheRun (map (\<lambda>r. Request r key) requesters) :: 'v artifactCache) = [key]
       \<and> deliveries (cacheRun (map (\<lambda>r. Request r key) requesters @ [Complete key out]))
           = map (\<lambda>r. (r, key, out)) requesters
       \<and> computations (cacheRun (map (\<lambda>r. Request r key) requesters
                                    @ [Complete key (Rejected e), Request late key])
                        :: 'v artifactCache) = [key]
       \<and> deliveries (cacheRun (map (\<lambda>r. Request r key) requesters
                                  @ [Complete key (Rejected e), Request late key])
                      :: 'v artifactCache)
           = map (\<lambda>r. (r, key, Rejected e)) requesters @ [(late, key, Rejected e)])"
proof (intro conjI impI allI)
  show "count_list (computations (cacheRun events)) key =
     (if \<exists>r. Request r key \<in> set events then 1 else 0)"
    using cacheInvariant_run[of events key]
    by (auto simp: cacheInvariant_def split: option.splits cacheEntry.splits)
next
  fix r r' out out'
  assume "(r, key, out) \<in> set (deliveries (cacheRun events))
         \<and> (r', key, out') \<in> set (deliveries (cacheRun events))"
  then have d: "(r, key, out) \<in> set (deliveries (cacheRun events))"
      "(r', key, out') \<in> set (deliveries (cacheRun events))"
    by simp_all
  have i: "cacheInvariant events (cacheRun events) key"
    by (rule cacheInvariant_run)
  show "out = out'"
  proof (cases "entries (cacheRun events) key")
    case None
    then show ?thesis using i d(1) by (auto simp: cacheInvariant_def)
  next
    case (Some entry)
    show ?thesis
    proof (cases entry)
      case (InFlight waiting)
      then show ?thesis using i d(1) Some by (auto simp: cacheInvariant_def)
    next
      case (Settled settled)
      then have "\<forall>(r, k, out')\<in>set (deliveries (cacheRun events)). k = key \<longrightarrow> out' = settled"
        using i Some by (simp add: cacheInvariant_def)
      then have "out = settled" "out' = settled" using d by auto
      then show ?thesis by simp
    qed
  qed
next
  assume n: "requesters \<noteq> []"
  note run = cacheRun_requests[OF n, of key, where ?'v = 'v]
  show "computations (cacheRun (map (\<lambda>r. Request r key) requesters) :: 'v artifactCache) = [key]"
    by (simp add: run)
  show "deliveries (cacheRun (map (\<lambda>r. Request r key) requesters @ [Complete key out]))
           = map (\<lambda>r. (r, key, out)) requesters"
    by (simp add: cacheRun_snoc run)
  have two: "cacheRun (xs @ [a, b]) = cacheStep (cacheStep (cacheRun xs) a) b"
    for xs and a b :: "'v cacheEvent"
    by (simp add: cacheRun_def)
  show "computations (cacheRun (map (\<lambda>r. Request r key) requesters
                                    @ [Complete key (Rejected e), Request late key])
                        :: 'v artifactCache) = [key]"
    by (simp add: two run)
  show "deliveries (cacheRun (map (\<lambda>r. Request r key) requesters
                                  @ [Complete key (Rejected e), Request late key])
                      :: 'v artifactCache)
           = map (\<lambda>r. (r, key, Rejected e)) requesters @ [(late, key, Rejected e)]"
    by (simp add: two run)
qed

theorem artifactCache_single_flight_witness:
  "computations (cacheRun [Request 1 (''FirstInteractive'', 0), Request 2 (''FirstInteractive'', 0),
                           Request 3 (''FirstInteractive'', 0)] :: real artifactCache)
     = [(''FirstInteractive'', 0)]
   \<and> deliveries (cacheRun [Request 1 (''FirstInteractive'', 0), Request 2 (''FirstInteractive'', 0),
                           Request 3 (''FirstInteractive'', 0),
                           Complete (''FirstInteractive'', 0) (Rejected (Error TRACE_BUSY_MSG)),
                           Request 4 (''FirstInteractive'', 0)] :: real artifactCache)
     = [(1, (''FirstInteractive'', 0), Rejected (Error TRACE_BUSY_MSG)),
        (2, (''FirstInteractive'', 0), Rejected (Error TRACE_BUSY_MSG)),
        (3, (''FirstInteractive'', 0), Rejected (Error TRACE_BUSY_MSG)),
        (4, (''FirstInteractive'', 0), Rejected (Error TRACE_BUSY_MSG))]
   \<and> count_list (computations (cacheRun [Request 1 (''FirstInteractive'', 0),
                           Request 5 (''TracingModel'', 0), Request 2 (''FirstInteractive'', 0),
                           Complete (''FirstInteractive'', 0) (Resolved 1500),
                           Request 3 (''FirstInteractive'', 0)] :: real artifactCache))
        (''FirstInteractive'', 0) = 1"
proof -
  let ?k = "(''FirstInteractive'', 0 :: nat)"
  let ?evs = "[Request 1 ?k, Request 5 (''TracingModel'', 0), Request 2 ?k,
               Complete ?k (Resolved (1500 :: real)), Request 3 ?k]"
  have n: "[1, 2, 3 :: nat] \<noteq> []" by simp
  have a: "computations (cacheRun (map (\<lambda>r. Request r ?k) [1, 2, 3]) :: real artifactCache) = [?k]
       \<and> deliveries (cacheRun (map (\<lambda>r. Request r ?k) [1, 2, 3]
                                  @ [Complete ?k (Rejected (Error TRACE_BUSY_MSG)), Request 4 ?k])
                      :: real artifactCache)
           = map (\<lambda>r. (r, ?k, Rejected (Error TRACE_BUSY_MSG))) [1, 2, 3]
             @ [(4, ?k, Rejected (Error TRACE_BUSY_MSG))]"
    using artifactCache_single_flight
            [of "[] :: real cacheEvent list" ?k "[1, 2, 3]" "Resolved 0" "Error TRACE_BUSY_MSG" 4] n
    by blast
  have "Request 1 ?k \<in> set ?evs" by simp
  then have "\<exists>r. Request r ?k \<in> set ?evs" by blast
  then have b: "count_list (computations (cacheRun ?evs)) ?k = 1"
    using artifactCache_single_flight [of ?evs ?k "[]"] by presburger
  from a b show ?thesis by simp
qed

end
